theory Spec2Isabelle
  imports Main "HOL-Library.Word" "HOL-Library.Tree"
begin

unbundle bit_operations_syntax

section \<open>Shallow embedding of drivers/gpu/drm/i915/gem/i915\_gem\_mman.c\<close>

text \<open>
  The file implements the mmap side of GEM buffer objects: the per-object registry of
  mmap offsets, the two page-fault handlers (through the GGTT aperture and directly
  through the CPU), the partial-view fallback, the swap-on-fault policy and the
  revocation of user mappings. Every function below carries the name of the C function
  it embeds. C integers are machine words where the source computes with them; pointers
  are natural numbers into total stores, and a NULL-able pointer is an \<open>option\<close>.
  Calls into the rest of the kernel (locking, page pinning, GGTT binding, the DRM offset
  manager) are answered by an environment record and leave an entry in a trace of
  collaborator calls, so that "nothing was pinned" or "no page-table entry was written"
  is a statement about that trace.
\<close>

subsection \<open>Error numbers and fault outcomes\<close>

text \<open>The values of include/uapi/asm-generic/errno-base.h, errno.h and linux/errno.h.\<close>

definition ENOENT :: int where "ENOENT = 2"
definition EINTR :: int where "EINTR = 4"
definition EIO :: int where "EIO = 5"
definition ENXIO :: int where "ENXIO = 6"
definition E2BIG :: int where "E2BIG = 7"
definition EAGAIN :: int where "EAGAIN = 11"
definition ENOMEM :: int where "ENOMEM = 12"
definition EACCES :: int where "EACCES = 13"
definition EFAULT :: int where "EFAULT = 14"
definition EBUSY :: int where "EBUSY = 16"
definition ENODEV :: int where "ENODEV = 19"
definition EINVAL :: int where "EINVAL = 22"
definition ENOSPC :: int where "ENOSPC = 28"
definition EDEADLK :: int where "EDEADLK = 35"
definition ERESTARTSYS :: int where "ERESTARTSYS = 512"

lemmas errno_defs = ENOENT_def EINTR_def EIO_def ENXIO_def E2BIG_def EAGAIN_def ENOMEM_def
  EACCES_def EFAULT_def EBUSY_def ENODEV_def EINVAL_def ENOSPC_def EDEADLK_def
  ERESTARTSYS_def

datatype vm_fault_t = VM_FAULT_SIGBUS | VM_FAULT_OOM | VM_FAULT_NOPAGE

text \<open>
  \<open>WARN_ONCE(cond, ...)\<close> keeps a static flag: it prints when the condition holds and the
  flag is still clear, and sets the flag. The result is (printed, new flag).
\<close>

definition WARN_ONCE :: "bool \<Rightarrow> bool \<Rightarrow> bool \<times> bool" where
  "WARN_ONCE warned cond = (cond \<and> \<not> warned, warned \<or> cond)"

text \<open>
  \<open>i915_error_to_vmf_fault\<close>: the switch, with the \<open>default\<close> label falling through
  into the SIGBUS group. The first argument is the state of the static flag of
  \<open>WARN_ONCE\<close>; the result is (fault outcome, warning printed, new flag).
\<close>

definition i915_error_to_vmf_fault :: "bool \<Rightarrow> int \<Rightarrow> vm_fault_t \<times> bool \<times> bool" where
  "i915_error_to_vmf_fault warned err =
     (if err = - EIO \<or> err = - EFAULT \<or> err = - ENODEV \<or> err = - ENXIO \<or> err = - E2BIG
        then (VM_FAULT_SIGBUS, False, warned)
      else if err = - ENOMEM
        then (VM_FAULT_OOM, False, warned)
      else if err = 0 \<or> err = - EAGAIN \<or> err = - ENOSPC \<or> err = - ERESTARTSYS
              \<or> err = - EINTR \<or> err = - EBUSY
        then (VM_FAULT_NOPAGE, False, warned)
      else (VM_FAULT_SIGBUS, WARN_ONCE warned (err \<noteq> 0)))"

text \<open>The error values the switch names, for stating what "unrecognised" means.\<close>

definition recognised_errors :: "int set" where
  "recognised_errors =
     {- EIO, - EFAULT, - ENODEV, - ENXIO, - E2BIG, - ENOMEM,
      0, - EAGAIN, - ENOSPC, - ERESTARTSYS, - EINTR, - EBUSY}"

subsection \<open>Objects, memory regions, views\<close>

definition PAGE_SHIFT :: nat where "PAGE_SHIFT = 12"

datatype i915_tiling = I915_TILING_NONE | I915_TILING_X | I915_TILING_Y

datatype i915_madv = I915_MADV_WILLNEED | I915_MADV_DONTNEED | I915_MADV_PURGED

text \<open>
  \<open>struct intel_memory_region\<close>, as far as this file reads it: the free budget
  \<open>avail\<close> (an \<open>atomic64_t\<close>, compared as unsigned against a \<open>u64\<close>), whether the
  region's GT is wedged, and the I/O window (\<open>iomap.base\<close>, \<open>region.start\<close>).
\<close>

record intel_memory_region =
  avail :: "64 word"
  gt_wedged :: bool
  iomap_base :: "64 word"
  region_start :: "64 word"

text \<open>
  \<open>struct drm_i915_gem_object\<close>, the fields and predicates this file reads or writes.
  Pointers to other objects (\<open>swapto\<close>, \<open>parent\<close>, the segments) and to the memory
  region are indices into the stores of \<open>i915_state\<close> below. \<open>tile_row_size\<close> is the
  value of \<open>i915_gem_object_get_tile_row_size\<close> (an \<open>unsigned int\<close>, in bytes), which
  lives in a header outside this file. \<open>userfault_count\<close> is an \<open>unsigned int\<close> that
  counts the object's GGTT mappings with the userfault bit; it is bounded by the number
  of those mappings, so it is a \<open>nat\<close> here. \<open>mmo_offsets\<close> is the rb-tree
  \<open>obj->mmo.offsets\<close>, a binary tree of pointers to \<open>struct i915_mmap_offset\<close>;
  \<open>vma_list\<close> is \<open>obj->vma.list\<close>.
\<close>

record drm_i915_gem_object =
  base_size :: "64 word"
  base_resv :: nat
  is_readonly :: bool
  tiling_mode :: i915_tiling
  tile_row_size :: "32 word"
  is_lmem :: bool
  mm_region :: nat
  has_pages :: bool
  pages_pin_count :: nat
  mm_madv :: i915_madv
  has_struct_page :: bool
  cache_level_none :: bool
  bo_cpu_clear :: bool
  swapto :: "nat option"
  is_segment :: bool
  parent :: "nat option"
  segment_offset :: "64 word"
  segments :: "nat list"
  userfault_count :: nat
  vma_list :: "nat list"
  mmo_offsets :: "nat tree"
  ops_mmap_offset :: bool
  ops_mmap_ops :: bool

definition i915_gem_object_is_tiled :: "drm_i915_gem_object \<Rightarrow> bool" where
  "i915_gem_object_is_tiled obj = (tiling_mode obj \<noteq> I915_TILING_NONE)"

definition i915_gem_object_has_pinned_pages :: "drm_i915_gem_object \<Rightarrow> bool" where
  "i915_gem_object_has_pinned_pages obj = (0 < pages_pin_count obj)"

definition i915_gem_object_has_segments :: "drm_i915_gem_object \<Rightarrow> bool" where
  "i915_gem_object_has_segments obj = (segments obj \<noteq> [])"

text \<open>\<open>obj->base.size >> PAGE_SHIFT\<close>: the object's page count.\<close>

definition obj_pages :: "drm_i915_gem_object \<Rightarrow> 64 word" where
  "obj_pages obj = drop_bit PAGE_SHIFT (base_size obj)"

definition tile_row_pages :: "drm_i915_gem_object \<Rightarrow> 32 word" where
  "tile_row_pages obj = drop_bit PAGE_SHIFT (tile_row_size obj)"

text \<open>
  The kernel's \<open>roundup(x, y)\<close> and \<open>rounddown(x, y)\<close> macros at the types of their
  uses in \<open>compute_partial_view\<close>: \<open>roundup\<close> on \<open>unsigned int\<close>,
  \<open>(((x) + (y - 1)) / y) * y\<close>; \<open>rounddown\<close> on \<open>pgoff_t\<close> (64 bits),
  \<open>x - (x % y)\<close>.
\<close>

definition roundup_u32 :: "32 word \<Rightarrow> 32 word \<Rightarrow> 32 word" where
  "roundup_u32 x y = ((x + (y - 1)) div y) * y"

definition rounddown_u64 :: "64 word \<Rightarrow> 64 word \<Rightarrow> 64 word" where
  "rounddown_u64 x y = x - (x mod y)"

datatype i915_ggtt_view_type = I915_GGTT_VIEW_NORMAL | I915_GGTT_VIEW_PARTIAL

text \<open>
  \<open>struct i915_ggtt_view\<close> with \<open>struct intel_partial_info\<close>
  (\<open>u64 offset; unsigned int size\<close>).
\<close>

record i915_ggtt_view =
  view_type :: i915_ggtt_view_type
  partial_offset :: "64 word"
  partial_size :: "32 word"

text \<open>
  What stops a function instead of returning: a division by zero, and a failed
  \<open>GEM_BUG_ON\<close> (the assertions are modelled as live, as in a debug build; where a
  theorem shows a result that is not \<open>BugOn\<close>, the result is the same with the
  assertions compiled out).
\<close>

datatype kernel_trap = DivideError | BugOn

text \<open>
  The first statement of \<open>compute_partial_view\<close>: for a tiled object the chunk is
  rounded up to the tile row, \<open>roundup(chunk, tile_row_pages(obj) ?: 1)\<close>, where
  \<open>?: 1\<close> replaces a zero row by 1.
\<close>

definition partial_chunk :: "drm_i915_gem_object \<Rightarrow> 32 word \<Rightarrow> 32 word" where
  "partial_chunk obj chunk =
     (if i915_gem_object_is_tiled obj
      then roundup_u32 chunk (if tile_row_pages obj \<noteq> 0 then tile_row_pages obj else 1)
      else chunk)"

text \<open>
  \<open>compute_partial_view\<close>. \<open>rounddown\<close> divides by the chunk: a zero chunk is a
  divide error in C and is the error branch here. \<open>min_t(unsigned int, a, b)\<close> casts
  both arguments to 32 bits before comparing; the second one is a 64-bit difference.
  The comparison that chooses the view type is made at 64 bits.
\<close>

definition compute_partial_view ::
  "drm_i915_gem_object \<Rightarrow> 64 word \<Rightarrow> 32 word \<Rightarrow> kernel_trap + i915_ggtt_view" where
  "compute_partial_view obj page_offset chunk0 =
     (let chunk = partial_chunk obj chunk0
      in if chunk = 0 then Inl DivideError
         else
           let off = rounddown_u64 page_offset (ucast chunk);
               sz = min chunk (ucast (obj_pages obj - off))
           in Inr \<lparr> view_type = (if ucast chunk \<ge> obj_pages obj
                                   then I915_GGTT_VIEW_NORMAL else I915_GGTT_VIEW_PARTIAL),
                     partial_offset = off,
                     partial_size = sz \<rparr>)"

text \<open>\<open>MIN_CHUNK_PAGES = SZ_1M >> PAGE_SHIFT\<close>.\<close>

definition MIN_CHUNK_PAGES :: "32 word" where
  "MIN_CHUNK_PAGES = drop_bit PAGE_SHIFT 0x100000"

text \<open>
  Modelled from the spec: the object that \<open>i915_gem_object_create_shmem\<close> returns, a
  "host-memory-backed" object of the requested size: in system memory, backed by struct
  pages, no pages resident yet, not pinned, marked will-need, with a reservation of its
  own. The function itself is outside this file.
\<close>

definition shmem_object :: "64 word \<Rightarrow> nat \<Rightarrow> drm_i915_gem_object" where
  "shmem_object sz resv =
     \<lparr> base_size = sz, base_resv = resv, is_readonly = False,
       tiling_mode = I915_TILING_NONE, tile_row_size = 0,
       is_lmem = False, mm_region = 0, has_pages = False, pages_pin_count = 0,
       mm_madv = I915_MADV_WILLNEED, has_struct_page = True, cache_level_none = False,
       bo_cpu_clear = False, swapto = None, is_segment = False, parent = None,
       segment_offset = 0, segments = [], userfault_count = 0, vma_list = [],
       mmo_offsets = Leaf, ops_mmap_offset = False, ops_mmap_ops = False \<rparr>"

text \<open>
  Objects for the concrete scenarios: 4096 pages with X tiling and a tile row of 64
  pages; 16 pages, untiled; and \<open>2^32 + 5\<close> pages, untiled.
\<close>

definition scenario_tiled_obj :: drm_i915_gem_object where
  "scenario_tiled_obj =
     (shmem_object 0x1000000 0) \<lparr> tiling_mode := I915_TILING_X, tile_row_size := 0x40000 \<rparr>"

definition small_obj :: drm_i915_gem_object where
  "small_obj = shmem_object 0x10000 0"

definition huge_obj :: drm_i915_gem_object where
  "huge_obj = shmem_object 0x100000005000 0"

text \<open>
  An object of 270 pages with X tiling and a tile row of 96 pages: larger than the
  minimum chunk of 256 pages, not larger than that chunk rounded up to the tile row,
  288 pages.
\<close>

definition row96_obj :: drm_i915_gem_object where
  "row96_obj =
     (shmem_object 0x10E000 0) \<lparr> tiling_mode := I915_TILING_X, tile_row_size := 0x60000 \<rparr>"

subsection \<open>Mmap offsets, GGTT mappings and the device state\<close>

text \<open>
  \<open>enum i915_mmap_type\<close>. The rb-tree of an object's offsets is ordered by the enum's
  integer value, \<open>mmap_type_val\<close>.
\<close>

datatype i915_mmap_type =
  I915_MMAP_TYPE_GTT | I915_MMAP_TYPE_WC | I915_MMAP_TYPE_WB | I915_MMAP_TYPE_UC

fun mmap_type_val :: "i915_mmap_type \<Rightarrow> nat" where
  "mmap_type_val I915_MMAP_TYPE_GTT = 0"
| "mmap_type_val I915_MMAP_TYPE_WC = 1"
| "mmap_type_val I915_MMAP_TYPE_WB = 2"
| "mmap_type_val I915_MMAP_TYPE_UC = 3"

text \<open>
  \<open>struct drm_vma_offset_node\<close>: the range in the offset manager's address space
  (start and size in pages, and whether the node is allocated) and \<open>vm_files\<close>, the
  tags allowed to map it. \<open>vm_files\<close> is an rb-tree keyed by the tag; only membership is
  ever asked of it, so it is kept as the list of its tags.
\<close>

record drm_vma_offset_node =
  vm_node_start :: nat
  vm_node_size :: nat
  vm_node_allocated :: bool
  vm_files :: "nat list"

record i915_mmap_offset =
  mmo_obj :: nat
  mmap_type :: i915_mmap_type
  vma_node :: drm_vma_offset_node

text \<open>\<open>drm_vma_node_reset\<close>, \<open>drm_vma_node_start\<close>, \<open>drm_vma_node_offset_addr\<close>.\<close>

definition drm_vma_node_reset :: drm_vma_offset_node where
  "drm_vma_node_reset =
     \<lparr> vm_node_start = 0, vm_node_size = 0, vm_node_allocated = False, vm_files = [] \<rparr>"

definition drm_vma_node_start :: "drm_vma_offset_node \<Rightarrow> 64 word" where
  "drm_vma_node_start node = of_nat (vm_node_start node)"

definition drm_vma_node_offset_addr :: "drm_vma_offset_node \<Rightarrow> 64 word" where
  "drm_vma_node_offset_addr node = push_bit PAGE_SHIFT (of_nat (vm_node_start node))"

text \<open>
  \<open>struct i915_vma\<close>, the fields this file uses: the size, the view it binds, its GGTT
  offset, whether it is a GGTT mapping, the userfault and ggtt-write bits, and the mmap
  offset it was faulted through.
\<close>

record i915_vma =
  vma_size :: "64 word"
  ggtt_view :: i915_ggtt_view
  vma_ggtt_offset :: "64 word"
  vma_is_ggtt :: bool
  vma_userfault :: bool
  vma_ggtt_write :: bool
  vma_mmo :: "nat option"

text \<open>
  Modelled from the spec: the "GlobalAddressAllocator", the DRM offset manager
  (\<open>drm_vma_offset_add\<close>, \<open>drm_vma_offset_remove\<close> are outside this file): one shared
  range of page offsets, from \<open>mgr_start\<close>, \<open>mgr_pages\<close> long, in which allocated
  nodes \<open>(start, size)\<close> do not overlap, and an allocation is sized in pages. The
  placement is first fit; no result below depends on where a node is placed.
\<close>

record drm_vma_offset_manager =
  mgr_start :: nat
  mgr_pages :: nat
  mgr_nodes :: "(nat \<times> nat) list"

definition mgr_fits :: "drm_vma_offset_manager \<Rightarrow> nat \<Rightarrow> nat \<Rightarrow> bool" where
  "mgr_fits mgr s n =
     (mgr_start mgr \<le> s \<and> s + n \<le> mgr_start mgr + mgr_pages mgr
      \<and> list_all (\<lambda>(s', n'). s + n \<le> s' \<or> s' + n' \<le> s) (mgr_nodes mgr))"

definition drm_mm_insert_node :: "drm_vma_offset_manager \<Rightarrow> nat \<Rightarrow> nat option" where
  "drm_mm_insert_node mgr n =
     (if n = 0 then None
      else find (\<lambda>s. mgr_fits mgr s n)
             (mgr_start mgr # map (\<lambda>(s', n'). s' + n') (mgr_nodes mgr)))"

text \<open>
  \<open>drm_vma_offset_add\<close>: 0 and the node placed, or \<open>-ENOSPC\<close> and nothing changed. A
  node that is already allocated is left alone.
\<close>

definition drm_vma_offset_add ::
  "drm_vma_offset_manager \<Rightarrow> drm_vma_offset_node \<Rightarrow> nat
     \<Rightarrow> int \<times> drm_vma_offset_manager \<times> drm_vma_offset_node" where
  "drm_vma_offset_add mgr node pages =
     (if vm_node_allocated node then (0, mgr, node)
      else case drm_mm_insert_node mgr pages of
             None \<Rightarrow> (- ENOSPC, mgr, node)
           | Some s \<Rightarrow>
               (0, mgr \<lparr> mgr_nodes := (s, pages) # mgr_nodes mgr \<rparr>,
                node \<lparr> vm_node_start := s, vm_node_size := pages,
                       vm_node_allocated := True \<rparr>))"

definition drm_vma_offset_remove ::
  "drm_vma_offset_manager \<Rightarrow> drm_vma_offset_node
     \<Rightarrow> drm_vma_offset_manager \<times> drm_vma_offset_node" where
  "drm_vma_offset_remove mgr node =
     (if vm_node_allocated node
      then (mgr \<lparr> mgr_nodes := removeAll (vm_node_start node, vm_node_size node) (mgr_nodes mgr) \<rparr>,
            node \<lparr> vm_node_start := 0, vm_node_size := 0, vm_node_allocated := False \<rparr>)
      else (mgr, node))"

text \<open>Flags of \<open>i915_gem_object_ggtt_pin_ww\<close>; the guard is \<open>PIN_OFFSET_GUARD | SZ_4K\<close>.\<close>

datatype pin_flag =
  PIN_MAPPABLE | PIN_NONBLOCK | PIN_NOEVICT | PIN_NOSEARCH | PIN_OFFSET_GUARD_4K

text \<open>
  The trace of calls into the rest of the kernel, in program order. Each entry carries
  the arguments that matter and, for a call that can fail, its result.
\<close>

datatype event =
    EvRpmGet | EvRpmPut
  | EvWwInit | EvWwFini | EvWwBackoff int
  | EvObjectLock nat int
  | EvPinPages nat int | EvUnpinPages nat
  | EvResetLock int | EvResetUnlock
  | EvGgttPin "i915_ggtt_view option" "pin_flag set" "int + nat"
  | EvPinFence nat int | EvUnpinFence nat | EvVmaUnpin nat
  | EvRemapIoMapping "64 word" "64 word" "64 word" int
  | EvRemapIoSg nat "64 word" "64 word" "64 word" "64 word" int
  | EvMigrateToSmem nat int
  | EvFlushFreeObjects
  | EvCreateShmem "64 word" int
  | EvUnmapNodeRange nat "64 word" "64 word"
  | EvOffsetAdd nat int | EvOffsetRemove nat
  | EvRetireRequests nat | EvDrainFreedObjects
  | EvKfree nat
  | EvWakerefAuto nat
  | EvWakeUpVar
  | EvWmb
  | EvWarn int

text \<open>
  The device: the stores that pointers index (objects, mmap offsets, GGTT mappings,
  memory regions), the next unused pointer of the allocator, the offset manager, the
  GGTT's list of objects with user faults, the two fields of
  \<open>struct drm_i915_private\<close> that \<open>vm_fault_cpu\<close> uses, the flag of \<open>WARN_ONCE\<close>, and
  the trace.
\<close>

record i915_state =
  objs :: "nat \<Rightarrow> drm_i915_gem_object"
  mmos :: "nat \<Rightarrow> i915_mmap_offset"
  vmas :: "nat \<Rightarrow> i915_vma"
  regions :: "nat \<Rightarrow> intel_memory_region"
  next_ptr :: nat
  vma_offset_manager :: drm_vma_offset_manager
  userfault_list :: "nat list"
  invalidate_lmem_mmaps :: bool
  active_fault_handlers :: nat
  warned_once :: bool
  trace :: "event list"

definition emit :: "event \<Rightarrow> i915_state \<Rightarrow> i915_state" where
  "emit ev s = s \<lparr> trace := trace s @ [ev] \<rparr>"

definition upd_obj ::
  "nat \<Rightarrow> (drm_i915_gem_object \<Rightarrow> drm_i915_gem_object) \<Rightarrow> i915_state \<Rightarrow> i915_state" where
  "upd_obj p f s = s \<lparr> objs := (objs s)(p := f (objs s p)) \<rparr>"

definition upd_vma :: "nat \<Rightarrow> (i915_vma \<Rightarrow> i915_vma) \<Rightarrow> i915_state \<Rightarrow> i915_state" where
  "upd_vma p f s = s \<lparr> vmas := (vmas s)(p := f (vmas s p)) \<rparr>"

definition upd_mmo ::
  "nat \<Rightarrow> (i915_mmap_offset \<Rightarrow> i915_mmap_offset) \<Rightarrow> i915_state \<Rightarrow> i915_state" where
  "upd_mmo p f s = s \<lparr> mmos := (mmos s)(p := f (mmos s p)) \<rparr>"

text \<open>
  The build configuration (\<open>CPTCFG_DRM_I915_*\<close>) and the device properties
  (\<open>HAS_FLAT_CCS\<close>, \<open>HAS_LLC\<close>, the start of the mappable aperture, the number of GTs)
  that the file consults.
\<close>

record i915_config =
  chicken_mmap_swap :: bool
  chicken_mmap_swap_create :: bool
  userfault_autosuspend :: nat
  has_flat_ccs :: bool
  has_llc :: bool
  gmadr_start :: "64 word"
  num_gt :: nat

text \<open>
  \<open>i915_gem_object_pin_pages_sync\<close> and \<open>i915_gem_object_unpin_pages\<close> as far as this
  file depends on them (both are outside it): a successful pin leaves the pages resident
  and raises the pin count, an unpin lowers it. The result of the pin is the
  environment's.
\<close>

definition i915_gem_object_pin_pages_sync :: "nat \<Rightarrow> int \<Rightarrow> i915_state \<Rightarrow> i915_state" where
  "i915_gem_object_pin_pages_sync p res s =
     emit (EvPinPages p res)
       (if res = 0
        then upd_obj p (\<lambda>ob. ob \<lparr> has_pages := True, pages_pin_count := pages_pin_count ob + 1 \<rparr>) s
        else s)"

definition i915_gem_object_unpin_pages :: "nat \<Rightarrow> i915_state \<Rightarrow> i915_state" where
  "i915_gem_object_unpin_pages p s =
     emit (EvUnpinPages p)
       (upd_obj p (\<lambda>ob. ob \<lparr> pages_pin_count := pages_pin_count ob - 1 \<rparr>) s)"

subsection \<open>The registry of mmap offsets\<close>

text \<open>
  \<open>lookup_mmo\<close>: the walk down the rb-tree \<open>obj->mmo.offsets\<close> under the object's
  \<open>mmo.lock\<close>; the first argument is the store of \<open>struct i915_mmap_offset\<close>.
\<close>

fun lookup_mmo_loop ::
  "(nat \<Rightarrow> i915_mmap_offset) \<Rightarrow> nat tree \<Rightarrow> i915_mmap_type \<Rightarrow> nat option" where
  "lookup_mmo_loop ms Leaf ty = None"
| "lookup_mmo_loop ms (Node l q r) ty =
     (if mmap_type (ms q) = ty then Some q
      else if mmap_type_val (mmap_type (ms q)) < mmap_type_val ty
           then lookup_mmo_loop ms r ty
           else lookup_mmo_loop ms l ty)"

definition lookup_mmo :: "nat \<Rightarrow> i915_mmap_type \<Rightarrow> i915_state \<Rightarrow> nat option" where
  "lookup_mmo obj ty s = lookup_mmo_loop (mmos s) (mmo_offsets (objs s obj)) ty"

text \<open>
  The loop of \<open>insert_mmo\<close>: \<open>Inl pos\<close> when a node of the same type is met, else
  \<open>Inr\<close> of the tree with the new node linked at the leaf where the walk ended
  (\<open>rb_link_node\<close>).
\<close>

fun insert_mmo_loop ::
  "(nat \<Rightarrow> i915_mmap_offset) \<Rightarrow> nat tree \<Rightarrow> nat \<Rightarrow> nat + nat tree" where
  "insert_mmo_loop ms Leaf p = Inr (Node Leaf p Leaf)"
| "insert_mmo_loop ms (Node l q r) p =
     (if mmap_type (ms q) = mmap_type (ms p) then Inl q
      else if mmap_type_val (mmap_type (ms q)) < mmap_type_val (mmap_type (ms p))
           then (case insert_mmo_loop ms r p of
                   Inl pos \<Rightarrow> Inl pos
                 | Inr r' \<Rightarrow> Inr (Node l q r'))
           else (case insert_mmo_loop ms l p of
                   Inl pos \<Rightarrow> Inl pos
                 | Inr l' \<Rightarrow> Inr (Node l' q r)))"

text \<open>
  \<open>insert_mmo\<close>. When a node of the same type exists, the new node's range is given
  back to the offset manager, the new record is freed and the existing one is returned.
  Otherwise the new node is linked and the tree is rebalanced. \<open>rb_insert_color\<close>
  belongs to the kernel's rb-tree library; it is a parameter, and the theorems ask of it
  only what rebalancing guarantees: the in-order sequence of the nodes is unchanged.
\<close>

definition insert_mmo ::
  "(nat tree \<Rightarrow> nat tree) \<Rightarrow> nat \<Rightarrow> nat \<Rightarrow> i915_state \<Rightarrow> nat \<times> i915_state" where
  "insert_mmo rb_insert_color obj p s =
     (case insert_mmo_loop (mmos s) (mmo_offsets (objs s obj)) p of
        Inl pos \<Rightarrow>
          (let (mgr', node') = drm_vma_offset_remove (vma_offset_manager s) (vma_node (mmos s p));
               s1 = emit (EvOffsetRemove p)
                      (upd_mmo p (\<lambda>m. m \<lparr> vma_node := node' \<rparr>)
                         (s \<lparr> vma_offset_manager := mgr' \<rparr>))
           in (pos, emit (EvKfree p) s1))
      | Inr t' \<Rightarrow>
          (p, upd_obj obj (\<lambda>ob. ob \<lparr> mmo_offsets := rb_insert_color t' \<rparr>) s))"

text \<open>
  \<open>vma_node_allow_once\<close>: the tag is added to the node's \<open>vm_files\<close> unless it is
  there already. The entry is allocated before the search; a failed allocation only
  matters (\<open>-ENOMEM\<close>) when the tag is not found. The first argument says whether
  \<open>kmalloc\<close> succeeded.
\<close>

definition vma_node_allow_once :: "bool \<Rightarrow> nat \<Rightarrow> nat \<Rightarrow> i915_state \<Rightarrow> int \<times> i915_state" where
  "vma_node_allow_once kmalloc_ok p tag s =
     (if tag \<in> set (vm_files (vma_node (mmos s p))) then (0, s)
      else if \<not> kmalloc_ok then (- ENOMEM, s)
      else (0, upd_mmo p
                 (\<lambda>m. m \<lparr> vma_node := (vma_node m) \<lparr> vm_files := tag # vm_files (vma_node m) \<rparr> \<rparr>)
                 s))"

text \<open>
  What the environment decides during one call of \<open>i915_gem_mmap_offset_attach\<close>:
  whether the two \<open>kmalloc\<close>s succeed, and which nodes of the offset manager belong to
  dead objects and are released when freed objects are drained.
\<close>

record attach_env =
  kmalloc_mmo_ok :: bool
  reaped_nodes :: "(nat \<times> nat) list"
  kmalloc_file_ok :: bool

text \<open>
  The allocation of the record: \<open>kmalloc\<close>, \<open>mmo->obj = obj\<close>,
  \<open>mmo->mmap_type = mmap_type\<close>, \<open>drm_vma_node_reset\<close>.
\<close>

definition attach_new_mmo :: "nat \<Rightarrow> i915_mmap_type \<Rightarrow> i915_state \<Rightarrow> nat \<times> i915_state" where
  "attach_new_mmo obj ty s =
     (let p = next_ptr s
      in (p, s \<lparr> next_ptr := Suc p,
                 mmos := (mmos s)(p := \<lparr> mmo_obj = obj, mmap_type = ty,
                                         vma_node = drm_vma_node_reset \<rparr>) \<rparr>))"

text \<open>
  \<open>drm_vma_offset_add(obj->base.dev->vma_offset_manager, &mmo->vma_node,
  obj->base.size / PAGE_SIZE)\<close> on the device state.
\<close>

definition attach_offset_add :: "nat \<Rightarrow> nat \<Rightarrow> i915_state \<Rightarrow> int \<times> i915_state" where
  "attach_offset_add obj p s =
     (let (err, mgr', node') =
            drm_vma_offset_add (vma_offset_manager s) (vma_node (mmos s p))
              (unat (base_size (objs s obj) div 4096))
      in (err, emit (EvOffsetAdd p err)
                 (upd_mmo p (\<lambda>m. m \<lparr> vma_node := node' \<rparr>)
                    (s \<lparr> vma_offset_manager := mgr' \<rparr>))))"

text \<open>
  Modelled from the spec: "force reclamation of dead-object address space", the loop
  \<open>for_each_gt(gt, i915, i) intel_gt_retire_requests(gt)\<close> followed by
  \<open>i915_gem_drain_freed_objects(i915)\<close> (both outside this file): the nodes that the
  environment names as held by dead objects leave the offset manager.
\<close>

definition reap_dead_objects :: "i915_config \<Rightarrow> attach_env \<Rightarrow> i915_state \<Rightarrow> i915_state" where
  "reap_dead_objects cfg env s =
     (let s1 = s \<lparr> trace := trace s @ map EvRetireRequests [0..<num_gt cfg] \<rparr>;
          mgr = vma_offset_manager s1
      in emit EvDrainFreedObjects
           (s1 \<lparr> vma_offset_manager :=
                   mgr \<lparr> mgr_nodes := filter (\<lambda>n. n \<notin> set (reaped_nodes env)) (mgr_nodes mgr) \<rparr> \<rparr>))"

text \<open>
  \<open>i915_gem_mmap_offset_attach\<close>, in the order of the source; the labels \<open>insert\<close>
  and \<open>out\<close> are \<open>attach_insert\<close> and \<open>attach_out\<close>. The result is a trap, or the
  returned pointer (\<open>Inl\<close> of the errno for an \<open>ERR_PTR\<close>) with the new state.
\<close>

definition attach_out ::
  "attach_env \<Rightarrow> nat \<Rightarrow> nat option \<Rightarrow> i915_state \<Rightarrow> (int + nat) \<times> i915_state" where
  "attach_out env mmo file s =
     (case file of
        None \<Rightarrow> (Inr mmo, s)
      | Some tag \<Rightarrow>
          (let (err, s') = vma_node_allow_once (kmalloc_file_ok env) mmo tag s
           in if err \<noteq> 0 then (Inl err, s') else (Inr mmo, s')))"

definition attach_insert ::
  "(nat tree \<Rightarrow> nat tree) \<Rightarrow> attach_env \<Rightarrow> nat \<Rightarrow> i915_mmap_type \<Rightarrow> nat \<Rightarrow> nat option
     \<Rightarrow> i915_state \<Rightarrow> kernel_trap + (int + nat) \<times> i915_state" where
  "attach_insert rb_insert_color env obj ty p file s =
     (let (mmo, s1) = insert_mmo rb_insert_color obj p s
      in if lookup_mmo obj ty s1 \<noteq> Some mmo then Inl BugOn
         else Inr (attach_out env mmo file s1))"

definition i915_gem_mmap_offset_attach ::
  "(nat tree \<Rightarrow> nat tree) \<Rightarrow> i915_config \<Rightarrow> attach_env \<Rightarrow> nat \<Rightarrow> i915_mmap_type \<Rightarrow> nat option
     \<Rightarrow> i915_state \<Rightarrow> kernel_trap + (int + nat) \<times> i915_state" where
  "i915_gem_mmap_offset_attach rb_insert_color cfg env obj ty file s =
     (if ops_mmap_offset (objs s obj) \<or> ops_mmap_ops (objs s obj) then Inl BugOn
      else case lookup_mmo obj ty s of
        Some mmo \<Rightarrow> Inr (attach_out env mmo file s)
      | None \<Rightarrow>
          if \<not> kmalloc_mmo_ok env then Inr (Inl (- ENOMEM), s)
          else
            let (p, s1) = attach_new_mmo obj ty s;
                (err, s2) = attach_offset_add obj p s1
            in if err = 0 then attach_insert rb_insert_color env obj ty p file s2
               else
                 let s3 = reap_dead_objects cfg env s2;
                     (err', s4) = attach_offset_add obj p s3
                 in if err' \<noteq> 0 then Inr (Inl err', emit (EvKfree p) s4)
                    else attach_insert rb_insert_color env obj ty p file s4)"

text \<open>
  The same function as a machine of atomic steps, one per critical section (the tree
  under \<open>obj->mmo.lock\<close>, the offset manager under its own lock, \<open>vm_files\<close> under the
  node's lock), for stating what concurrent callers can observe. A caller is at a
  program point; a step runs one critical section on the shared state.
\<close>

datatype attach_pc =
    AtLookup
  | AtAlloc
  | AtReap nat
  | AtRetry nat
  | AtInsert nat
  | AtCheck nat
  | AtOut nat
  | AtDone "kernel_trap + (int + nat)"

definition attach_step ::
  "(nat tree \<Rightarrow> nat tree) \<Rightarrow> i915_config \<Rightarrow> attach_env \<Rightarrow> nat \<Rightarrow> i915_mmap_type \<Rightarrow> nat option
     \<Rightarrow> attach_pc \<Rightarrow> i915_state \<Rightarrow> attach_pc \<times> i915_state" where
  "attach_step rb_insert_color cfg env obj ty file pc s =
     (case pc of
        AtLookup \<Rightarrow>
          (if ops_mmap_offset (objs s obj) \<or> ops_mmap_ops (objs s obj) then (AtDone (Inl BugOn), s)
           else case lookup_mmo obj ty s of
                  Some mmo \<Rightarrow> (AtOut mmo, s)
                | None \<Rightarrow> (AtAlloc, s))
      | AtAlloc \<Rightarrow>
          (if \<not> kmalloc_mmo_ok env then (AtDone (Inr (Inl (- ENOMEM))), s)
           else let (p, s1) = attach_new_mmo obj ty s;
                    (err, s2) = attach_offset_add obj p s1
                in if err = 0 then (AtInsert p, s2) else (AtReap p, s2))
      | AtReap p \<Rightarrow> (AtRetry p, reap_dead_objects cfg env s)
      | AtRetry p \<Rightarrow>
          (let (err', s4) = attach_offset_add obj p s
           in if err' \<noteq> 0 then (AtDone (Inr (Inl err')), emit (EvKfree p) s4)
              else (AtInsert p, s4))
      | AtInsert p \<Rightarrow>
          (let (mmo, s1) = insert_mmo rb_insert_color obj p s in (AtCheck mmo, s1))
      | AtCheck mmo \<Rightarrow>
          (if lookup_mmo obj ty s \<noteq> Some mmo then (AtDone (Inl BugOn), s) else (AtOut mmo, s))
      | AtOut mmo \<Rightarrow>
          (let (r, s') = attach_out env mmo file s in (AtDone (Inr r), s'))
      | AtDone r \<Rightarrow> (AtDone r, s))"

text \<open>
  Two callers attaching the same type to the same object, each with its own
  environment and file, under a schedule: \<open>True\<close> lets the first caller take its next
  step, \<open>False\<close> the second.
\<close>

fun attach_race ::
  "(nat tree \<Rightarrow> nat tree) \<Rightarrow> i915_config \<Rightarrow> nat \<Rightarrow> i915_mmap_type
     \<Rightarrow> attach_env \<times> nat option \<Rightarrow> attach_env \<times> nat option
     \<Rightarrow> bool list \<Rightarrow> attach_pc \<times> attach_pc \<times> i915_state \<Rightarrow> attach_pc \<times> attach_pc \<times> i915_state" where
  "attach_race bal cfg obj ty c1 c2 [] st = st"
| "attach_race bal cfg obj ty c1 c2 (b # bs) (pc1, pc2, s) =
     (if b
      then (let (pc1', s') = attach_step bal cfg (fst c1) obj ty (snd c1) pc1 s
            in attach_race bal cfg obj ty c1 c2 bs (pc1', pc2, s'))
      else (let (pc2', s') = attach_step bal cfg (fst c2) obj ty (snd c2) pc2 s
            in attach_race bal cfg obj ty c1 c2 bs (pc1, pc2', s')))"

text \<open>
  The registry invariant: the tree is a search tree for the order of the mmap types
  (so no two of its records have the same type), and its records were allocated (they
  lie below the allocator's next pointer).
\<close>

definition mmo_key :: "(nat \<Rightarrow> i915_mmap_offset) \<Rightarrow> nat \<Rightarrow> nat" where
  "mmo_key ms p = mmap_type_val (mmap_type (ms p))"

definition registry_ok :: "nat \<Rightarrow> i915_state \<Rightarrow> bool" where
  "registry_ok obj s =
     (sorted_wrt (<) (map (mmo_key (mmos s)) (inorder (mmo_offsets (objs s obj))))
      \<and> list_all (\<lambda>q. q < next_ptr s) (inorder (mmo_offsets (objs s obj))))"

text \<open>The records of a given type that are visible in an object's registry.\<close>

definition records_of_type :: "nat \<Rightarrow> i915_mmap_type \<Rightarrow> i915_state \<Rightarrow> nat list" where
  "records_of_type obj ty s =
     filter (\<lambda>q. mmap_type (mmos s q) = ty) (inorder (mmo_offsets (objs s obj)))"

text \<open>
  What each caller's program point promises about the shared state: a record that is
  allocated and not yet committed is \<open>pending\<close> (it is not in the tree); a record a
  caller looked up or committed is \<open>visible\<close> (it is in the tree and has the
  requested type); a caller that is done did not trap, and a record it returns is
  visible.
\<close>

definition pending :: "nat \<Rightarrow> i915_mmap_type \<Rightarrow> i915_state \<Rightarrow> nat \<Rightarrow> bool" where
  "pending obj ty s p =
     (p < next_ptr s \<and> p \<notin> set_tree (mmo_offsets (objs s obj)) \<and> mmap_type (mmos s p) = ty)"

definition visible :: "nat \<Rightarrow> i915_mmap_type \<Rightarrow> i915_state \<Rightarrow> nat \<Rightarrow> bool" where
  "visible obj ty s m =
     (m \<in> set_tree (mmo_offsets (objs s obj)) \<and> mmap_type (mmos s m) = ty)"

fun pc_ok :: "nat \<Rightarrow> i915_mmap_type \<Rightarrow> i915_state \<Rightarrow> attach_pc \<Rightarrow> bool" where
  "pc_ok obj ty s AtLookup = True"
| "pc_ok obj ty s AtAlloc = True"
| "pc_ok obj ty s (AtReap p) = pending obj ty s p"
| "pc_ok obj ty s (AtRetry p) = pending obj ty s p"
| "pc_ok obj ty s (AtInsert p) = pending obj ty s p"
| "pc_ok obj ty s (AtCheck m) = visible obj ty s m"
| "pc_ok obj ty s (AtOut m) = visible obj ty s m"
| "pc_ok obj ty s (AtDone (Inl trap)) = False"
| "pc_ok obj ty s (AtDone (Inr (Inl err))) = True"
| "pc_ok obj ty s (AtDone (Inr (Inr m))) = visible obj ty s m"

fun pending_of :: "attach_pc \<Rightarrow> nat set" where
  "pending_of (AtReap p) = {p}"
| "pending_of (AtRetry p) = {p}"
| "pending_of (AtInsert p) = {p}"
| "pending_of pc = {}"

text \<open>What a step on the shared state may do to an object's registry.\<close>

definition reg_step :: "nat \<Rightarrow> i915_state \<Rightarrow> i915_state \<Rightarrow> nat set \<Rightarrow> bool" where
  "reg_step obj s s' added =
     (next_ptr s \<le> next_ptr s'
      \<and> (\<forall>q. q < next_ptr s \<longrightarrow> mmap_type (mmos s' q) = mmap_type (mmos s q))
      \<and> set_tree (mmo_offsets (objs s' obj)) = set_tree (mmo_offsets (objs s obj)) \<union> added
      \<and> ops_mmap_offset (objs s' obj) = ops_mmap_offset (objs s obj)
      \<and> ops_mmap_ops (objs s' obj) = ops_mmap_ops (objs s obj))"

text \<open>
  The invariant of two racing callers: the registry invariant, the assertion at the
  head of \<open>i915_gem_mmap_offset_attach\<close>, each caller's promise, and that the two
  callers never hold the same uncommitted record.
\<close>

fun race_inv :: "nat \<Rightarrow> i915_mmap_type \<Rightarrow> attach_pc \<times> attach_pc \<times> i915_state \<Rightarrow> bool" where
  "race_inv obj ty (pc1, pc2, s) =
     (registry_ok obj s
      \<and> \<not> ops_mmap_offset (objs s obj) \<and> \<not> ops_mmap_ops (objs s obj)
      \<and> pc_ok obj ty s pc1 \<and> pc_ok obj ty s pc2
      \<and> pending_of pc1 \<inter> pending_of pc2 = {})"

subsection \<open>The swap-on-fault policy\<close>

text \<open>
  What the environment decides during one pass of the body of \<open>vm_fault_cpu\<close>'s
  locking loop: the results of \<open>i915_gem_object_lock\<close>,
  \<open>i915_gem_object_create_shmem\<close> (0 or the errno of its \<open>ERR_PTR\<close>),
  \<open>i915_gem_object_should_migrate_smem\<close> (its return value and what it stores in
  \<open>required\<close>), \<open>i915_gem_object_migrate_to_smem\<close>,
  \<open>i915_gem_object_pin_pages_sync\<close>, \<open>remap_io_sg\<close> and
  \<open>i915_gem_ww_ctx_backoff\<close>, and how much budget \<open>i915_gem_flush_free_objects\<close>
  returns to the object's memory region.
\<close>

record cpu_env =
  c_lock :: int
  c_flush_freed :: "64 word"
  c_create_shmem :: int
  c_should_migrate :: bool
  c_required :: bool
  c_migrate :: int
  c_pin_pages :: int
  c_remap :: int
  c_backoff :: int

text \<open>
  Modelled from the spec: \<open>i915_gem_flush_free_objects\<close>, the "dead-object
  reclamation trigger" (outside this file). Freeing dead objects returns their memory to
  the region's budget; the amount is the environment's.
\<close>

definition i915_gem_flush_free_objects :: "cpu_env \<Rightarrow> nat \<Rightarrow> i915_state \<Rightarrow> i915_state" where
  "i915_gem_flush_free_objects env obj s =
     (let r = mm_region (objs s obj)
      in emit EvFlushFreeObjects
           (s \<lparr> regions := (regions s)(r := (regions s r)
                   \<lparr> avail := avail (regions s r) + c_flush_freed env \<rparr>) \<rparr>))"

text \<open>
  \<open>i915_gem_object_create_shmem(i915, size)\<close>: an \<open>ERR_PTR\<close>, or a new object at the
  allocator's next pointer.
\<close>

definition i915_gem_object_create_shmem ::
  "cpu_env \<Rightarrow> 64 word \<Rightarrow> i915_state \<Rightarrow> (int + nat) \<times> i915_state" where
  "i915_gem_object_create_shmem env sz s =
     (if c_create_shmem env \<noteq> 0
      then (Inl (c_create_shmem env), emit (EvCreateShmem sz (c_create_shmem env)) s)
      else (let p = next_ptr s
            in (Inr p, emit (EvCreateShmem sz 0)
                         (s \<lparr> next_ptr := Suc p,
                              objs := (objs s)(p := shmem_object sz p) \<rparr>))))"

text \<open>
  Modelled from the spec: \<open>i915_gem_object_share_resv\<close> (outside this file), "the
  shadow shares the real object's synchronization domain": the second object takes the
  reservation of the first.
\<close>

definition i915_gem_object_share_resv :: "nat \<Rightarrow> nat \<Rightarrow> i915_state \<Rightarrow> i915_state" where
  "i915_gem_object_share_resv obj swp s =
     upd_obj swp (\<lambda>ob. ob \<lparr> base_resv := base_resv (objs s obj) \<rparr>) s"

text \<open>
  \<open>create_swapto\<close>. The result is the object to use (the object itself, or the new
  shadow) with the new state. \<open>2 * size < atomic64_read(&avail)\<close> is a comparison of
  unsigned 64-bit values.
\<close>

definition create_swapto ::
  "i915_config \<Rightarrow> cpu_env \<Rightarrow> nat \<Rightarrow> bool \<Rightarrow> i915_state \<Rightarrow> kernel_trap + nat \<times> i915_state" where
  "create_swapto cfg env obj wr s =
     (if \<not> chicken_mmap_swap_create cfg then Inr (obj, s)
      else if \<not> is_lmem (objs s obj) then Inr (obj, s)
      else if has_pages (objs s obj) \<or> mm_madv (objs s obj) = I915_MADV_PURGED then Inr (obj, s)
      else
        let s1 = i915_gem_flush_free_objects env obj s;
            sz = base_size (objs s1 obj)
        in if wr \<and> 2 * sz < avail (regions s1 (mm_region (objs s1 obj))) then Inr (obj, s1)
           else
             let sz' = (if has_flat_ccs cfg \<and> \<not> gt_wedged (regions s1 (mm_region (objs s1 obj)))
                        then sz + drop_bit 8 sz else sz);
                 (res, s2) = i915_gem_object_create_shmem env sz' s1
             in case res of
                  Inl err \<Rightarrow> Inr (obj, s2)
                | Inr swp \<Rightarrow>
                    let s3 = upd_obj swp (\<lambda>ob. ob \<lparr> bo_cpu_clear := True \<rparr>) s2;
                        s4 = i915_gem_object_share_resv obj swp s3
                    in if swapto (objs s4 obj) \<noteq> None then Inl BugOn
                       else Inr (swp, upd_obj obj (\<lambda>ob. ob \<lparr> swapto := Some swp \<rparr>) s4))"

text \<open>\<open>use_swapto\<close>.\<close>

definition use_swapto ::
  "i915_config \<Rightarrow> cpu_env \<Rightarrow> nat \<Rightarrow> bool \<Rightarrow> i915_state \<Rightarrow> kernel_trap + nat \<times> i915_state" where
  "use_swapto cfg env obj wr s =
     (if \<not> chicken_mmap_swap cfg then Inr (obj, s)
      else case swapto (objs s obj) of
             None \<Rightarrow> create_swapto cfg env obj wr s
           | Some swp \<Rightarrow>
               if mm_madv (objs s swp) \<noteq> I915_MADV_WILLNEED then create_swapto cfg env obj wr s
               else if base_resv (objs s swp) \<noteq> base_resv (objs s obj) then Inl BugOn
               else Inr (swp, s))"

subsection \<open>The direct fault handler\<close>

text \<open>
  What a fault handler reads of \<open>struct vm_fault\<close> and its \<open>vm_area_struct\<close>: the
  faulting address, the bounds and page offset of the mapping, whether it is writable
  (\<open>vm_flags & VM_WRITE\<close>), and \<open>vm_private_data\<close>, the mmap offset.
\<close>

record vm_fault =
  vmf_address :: "64 word"
  vm_start :: "64 word"
  vm_end :: "64 word"
  vm_pgoff :: "64 word"
  vm_write :: bool
  vm_private_data :: nat

text \<open>The window of page-table entries to fill: start address, size in bytes, and the
  page offset into the object.\<close>

record fault_window =
  win_start :: "64 word"
  win_size :: "64 word"
  win_obj_offset :: "64 word"

text \<open>
  Modelled from the spec: \<open>i915_gem_object_lookup_segment\<close> (outside this file),
  "locate the sub-object owning the offset": the first segment whose range
  \<open>[segment_offset, segment_offset + size)\<close> holds the byte offset, if any.
\<close>

definition i915_gem_object_lookup_segment :: "i915_state \<Rightarrow> nat \<Rightarrow> 64 word \<Rightarrow> nat option" where
  "i915_gem_object_lookup_segment s obj off =
     find (\<lambda>sg. segment_offset (objs s sg) \<le> off
                \<and> off - segment_offset (objs s sg) < base_size (objs s sg))
          (segments (objs s obj))"

text \<open>
  The window of \<open>vm_fault_cpu\<close>: the whole mapping, or for a segmented object the part
  of the mapping that the segment backs. \<open>None\<close> when no segment covers the fault.
  \<open>obj_offset\<close> is a \<open>long\<close>; it is compared with the unsigned
  \<open>segment_offset >> PAGE_SHIFT\<close>, so the comparison is unsigned.
\<close>

definition vm_fault_cpu_window ::
  "i915_state \<Rightarrow> vm_fault \<Rightarrow> nat \<Rightarrow> (nat \<times> fault_window) option" where
  "vm_fault_cpu_window s vmf obj =
     (let page_offset = drop_bit PAGE_SHIFT (vmf_address vmf - vm_start vmf);
          obj_offset = vm_pgoff vmf
                         - drm_vma_node_start (vma_node (mmos s (vm_private_data vmf)))
      in if i915_gem_object_has_segments (objs s obj)
         then (case i915_gem_object_lookup_segment s obj
                      (push_bit PAGE_SHIFT (obj_offset + page_offset)) of
                 None \<Rightarrow> None
               | Some sg \<Rightarrow>
                   (let seg_pg = drop_bit PAGE_SHIFT (segment_offset (objs s sg));
                        sz0 = base_size (objs s sg);
                        (start, off, sz1) =
                          (if obj_offset > seg_pg
                           then (vm_start vmf, obj_offset - seg_pg,
                                 sz0 - push_bit PAGE_SHIFT (obj_offset - seg_pg))
                           else (vm_start vmf + segment_offset (objs s sg)
                                   - push_bit PAGE_SHIFT obj_offset,
                                 0, sz0));
                        sz2 = min (vm_end vmf) (start + sz1)
                    in Some (sg, \<lparr> win_start = start, win_size = sz2 - start,
                                    win_obj_offset = off \<rparr>)))
         else Some (obj, \<lparr> win_start = vm_start vmf, win_size = vm_end vmf - vm_start vmf,
                            win_obj_offset = obj_offset \<rparr>))"

text \<open>
  Modelled from the spec: \<open>i915_gem_object_migrate_to_smem\<close> (outside this file), the
  "migration operation": on success the object lives in system memory, backed by struct
  pages. The result is the environment's.
\<close>

definition i915_gem_object_migrate_to_smem :: "nat \<Rightarrow> int \<Rightarrow> i915_state \<Rightarrow> i915_state" where
  "i915_gem_object_migrate_to_smem pg res s =
     emit (EvMigrateToSmem pg res)
       (if res = 0
        then upd_obj pg (\<lambda>ob. ob \<lparr> is_lmem := False, has_struct_page := True \<rparr>) s
        else s)"

text \<open>
  The migration step of the loop body, from \<open>if (i915_gem_object_should_migrate_smem(pg,
  &required))\<close> to the end of that statement. The result says whether the body
  \<open>continue\<close>s (and with which \<open>err\<close>) or goes on to pin the pages.
\<close>

datatype migrate_result = Continue int | Proceed

definition vm_fault_cpu_migrate :: "cpu_env \<Rightarrow> nat \<Rightarrow> i915_state \<Rightarrow> migrate_result \<times> i915_state" where
  "vm_fault_cpu_migrate e pg s =
     (if c_should_migrate e
      then (let (err, s1) =
                  (if i915_gem_object_has_pinned_pages (objs s pg)
                   then (- EFAULT, s)
                   else (c_migrate e, i915_gem_object_migrate_to_smem pg (c_migrate e) s))
            in if err \<noteq> 0 \<and> c_required e then (Continue err, s1)
               else if err = - EDEADLK then (Continue err, s1)
               else (Proceed, s1))
      else (Proceed, s))"

text \<open>
  The rest of the body: pin the pages, choose the I/O base (\<open>-1\<close> for struct pages),
  fill the page-table entries with \<open>remap_io_sg\<close>, unpin.
\<close>

definition vm_fault_cpu_populate ::
  "cpu_env \<Rightarrow> fault_window \<Rightarrow> nat \<Rightarrow> i915_state \<Rightarrow> int \<times> i915_state" where
  "vm_fault_cpu_populate e win pg s =
     (let s1 = i915_gem_object_pin_pages_sync pg (c_pin_pages e) s
      in if c_pin_pages e \<noteq> 0 then (c_pin_pages e, s1)
         else
           let reg = regions s1 (mm_region (objs s1 pg));
               iomap = (if \<not> has_struct_page (objs s1 pg)
                        then iomap_base reg - region_start reg else - 1);
               s2 = emit (EvRemapIoSg pg (win_start win) (win_size win) (win_obj_offset win)
                            iomap (c_remap e)) s1
           in (c_remap e, i915_gem_object_unpin_pages pg s2))"

text \<open>The body of the loop: lock, \<open>use_swapto\<close>, migrate, populate.\<close>

definition vm_fault_cpu_body ::
  "i915_config \<Rightarrow> cpu_env \<Rightarrow> fault_window \<Rightarrow> nat \<Rightarrow> bool \<Rightarrow> i915_state
     \<Rightarrow> kernel_trap + int \<times> i915_state" where
  "vm_fault_cpu_body cfg e win obj wr s =
     (let s0 = emit (EvObjectLock obj (c_lock e)) s
      in if c_lock e \<noteq> 0 then Inr (c_lock e, s0)
         else case use_swapto cfg e obj wr s0 of
                Inl trap \<Rightarrow> Inl trap
              | Inr (pg, s1) \<Rightarrow>
                  (case vm_fault_cpu_migrate e pg s1 of
                     (Continue err, s2) \<Rightarrow> Inr (err, s2)
                   | (Proceed, s2) \<Rightarrow> Inr (vm_fault_cpu_populate e win pg s2)))"

text \<open>
  Modelled from the spec: the loop macro \<open>for_i915_gem_ww\<close> and its step
  \<open>__i915_gem_ww_fini\<close> (in i915\_gem\_ww.h, outside this file), the "wound-wait"
  discipline: on \<open>-EDEADLK\<close> the transaction backs off and, when the backoff succeeds,
  the body runs again; any other result ends the transaction.
\<close>

definition i915_gem_ww_fini :: "cpu_env \<Rightarrow> int \<Rightarrow> i915_state \<Rightarrow> int \<times> i915_state" where
  "i915_gem_ww_fini e err s =
     (let (err1, s1) =
            (if err = - EDEADLK
             then (if c_backoff e = 0 then - EDEADLK else c_backoff e,
                   emit (EvWwBackoff (c_backoff e)) s)
             else (err, s))
      in if err1 \<noteq> - EDEADLK then (err1, emit EvWwFini s1) else (err1, s1))"

text \<open>
  \<open>do for_i915_gem_ww(&ww, err, true) { ... } while (err == -ENXIO || err == -ENOMEM)\<close>.
  Each pass of the body takes the next environment; \<open>None\<close> means the passes given did
  not bring the loop to its end.
\<close>

fun vm_fault_cpu_loop ::
  "i915_config \<Rightarrow> fault_window \<Rightarrow> nat \<Rightarrow> bool \<Rightarrow> cpu_env list \<Rightarrow> i915_state
     \<Rightarrow> (kernel_trap + int \<times> i915_state) option" where
  "vm_fault_cpu_loop cfg win obj wr [] s = None"
| "vm_fault_cpu_loop cfg win obj wr (e # es) s =
     (case vm_fault_cpu_body cfg e win obj wr s of
        Inl trap \<Rightarrow> Some (Inl trap)
      | Inr (err, s1) \<Rightarrow>
          (let (err2, s2) = i915_gem_ww_fini e err s1
           in if err2 = - EDEADLK then vm_fault_cpu_loop cfg win obj wr es s2
              else if err2 = - ENXIO \<or> err2 = - ENOMEM
                   then vm_fault_cpu_loop cfg win obj wr es (emit EvWwInit s2)
                   else Some (Inr (err2, s2))))"

text \<open>The translation of the final error, with the flag of \<open>WARN_ONCE\<close> kept in the state.\<close>

definition fault_return :: "int \<Rightarrow> i915_state \<Rightarrow> vm_fault_t \<times> i915_state" where
  "fault_return err s =
     (let (ret, printed, w) = i915_error_to_vmf_fault (warned_once s) err;
          s1 = s \<lparr> warned_once := w \<rparr>
      in (ret, if printed then emit (EvWarn err) s1 else s1))"

text \<open>The label \<open>out\<close> of \<open>vm_fault_cpu\<close>: \<open>atomic_dec_and_test\<close> and the wake-up.\<close>

definition vm_fault_cpu_out :: "vm_fault_t \<Rightarrow> i915_state \<Rightarrow> vm_fault_t \<times> i915_state" where
  "vm_fault_cpu_out ret s =
     (let s1 = s \<lparr> active_fault_handlers := active_fault_handlers s - 1 \<rparr>
      in (ret, if active_fault_handlers s1 = 0 then emit EvWakeUpVar s1 else s1))"

text \<open>\<open>vm_fault_cpu\<close>.\<close>

definition vm_fault_cpu ::
  "i915_config \<Rightarrow> cpu_env list \<Rightarrow> vm_fault \<Rightarrow> i915_state
     \<Rightarrow> (kernel_trap + vm_fault_t \<times> i915_state) option" where
  "vm_fault_cpu cfg envs vmf s =
     (let obj = mmo_obj (mmos s (vm_private_data vmf));
          wr = vm_write vmf
      in if is_readonly (objs s obj) \<and> wr then Some (Inr (VM_FAULT_SIGBUS, s))
         else
           let s1 = s \<lparr> active_fault_handlers := active_fault_handlers s + 1 \<rparr>
           in if invalidate_lmem_mmaps s1 then Some (Inr (vm_fault_cpu_out VM_FAULT_SIGBUS s1))
              else case vm_fault_cpu_window s1 vmf obj of
                     None \<Rightarrow> Some (Inr (vm_fault_cpu_out VM_FAULT_SIGBUS s1))
                   | Some (tgt, win) \<Rightarrow>
                       (case vm_fault_cpu_loop cfg win tgt wr envs (emit EvWwInit s1) of
                          None \<Rightarrow> None
                        | Some (Inl trap) \<Rightarrow> Some (Inl trap)
                        | Some (Inr (err, s2)) \<Rightarrow>
                            (let (ret, s3) = fault_return err s2
                             in Some (Inr (vm_fault_cpu_out ret s3)))))"

subsection \<open>The aperture fault handler\<close>

text \<open>
  What the environment decides during one attempt of \<open>vm_fault_gtt\<close> (from the label
  \<open>retry\<close> to the label \<open>err_rpm\<close>): the results of \<open>i915_gem_object_lock\<close>,
  \<open>i915_gem_object_pin_pages_sync\<close>, \<open>intel_gt_reset_lock_interruptible\<close>, the three
  calls of \<open>i915_gem_object_ggtt_pin_ww\<close> (an errno, or the mapping's pointer and its
  contents once bound), \<open>i915_vma_pin_fence_wait\<close>, \<open>remap_io_mapping\<close> and
  \<open>i915_gem_ww_ctx_backoff\<close>.
\<close>

record gtt_env =
  g_lock :: int
  g_pin_pages :: int
  g_reset_lock :: int
  g_pin_full :: "int + nat \<times> i915_vma"
  g_pin_view :: "int + nat \<times> i915_vma"
  g_pin_partial :: "int + nat \<times> i915_vma"
  g_fence :: int
  g_remap :: int
  g_backoff :: int

text \<open>
  Modelled from the spec: \<open>i915_gem_object_ggtt_pin_ww\<close> (outside this file), the
  "aperture bind". On success the mapping for the view is looked up or created and
  bound: the environment gives its pointer and its geometry; a mapping the object
  already has keeps its userfault and write bits and its mmap offset, a new one starts
  with them clear and joins the object's list.
\<close>

definition i915_gem_object_ggtt_pin_ww ::
  "nat \<Rightarrow> i915_ggtt_view option \<Rightarrow> pin_flag set \<Rightarrow> (int + nat \<times> i915_vma) \<Rightarrow> i915_state
     \<Rightarrow> (int + nat) \<times> i915_state" where
  "i915_gem_object_ggtt_pin_ww obj view flags res s =
     (case res of
        Inl err \<Rightarrow> (Inl err, emit (EvGgttPin view flags (Inl err)) s)
      | Inr (v, img) \<Rightarrow>
          (let known = (v \<in> set (vma_list (objs s obj)));
               old = vmas s v;
               new = img \<lparr> vma_is_ggtt := True,
                            vma_userfault := (known \<and> vma_userfault old),
                            vma_ggtt_write := (known \<and> vma_ggtt_write old),
                            vma_mmo := (if known then vma_mmo old else None) \<rparr>;
               s1 = s \<lparr> vmas := (vmas s)(v := new) \<rparr>;
               s2 = (if known then s1
                     else upd_obj obj (\<lambda>ob. ob \<lparr> vma_list := v # vma_list ob \<rparr>) s1)
           in (Inr v, emit (EvGgttPin view flags (Inr v)) s2)))"

text \<open>\<open>IS_ERR(vma) && vma != ERR_PTR(-EDEADLK)\<close>.\<close>

definition pin_failed_not_deadlk :: "int + nat \<Rightarrow> bool" where
  "pin_failed_not_deadlk r = (case r of Inl err \<Rightarrow> err \<noteq> - EDEADLK | Inr v \<Rightarrow> False)"

text \<open>
  The binding step: the whole object first (mappable, non-blocking, no eviction); on
  failure the view of \<open>compute_partial_view\<close>, without searching, and non-blocking when
  that view is the whole object; on failure again the same view forced to be partial,
  with eviction and search allowed. The result is the last \<open>vma\<close>.
\<close>

definition vm_fault_gtt_bind ::
  "gtt_env \<Rightarrow> nat \<Rightarrow> 64 word \<Rightarrow> i915_state \<Rightarrow> kernel_trap + (int + nat) \<times> i915_state" where
  "vm_fault_gtt_bind e obj page_offset s =
     (let (r1, s1) = i915_gem_object_ggtt_pin_ww obj None
                       {PIN_OFFSET_GUARD_4K, PIN_MAPPABLE, PIN_NONBLOCK, PIN_NOEVICT}
                       (g_pin_full e) s
      in if pin_failed_not_deadlk r1
         then (case compute_partial_view (objs s1 obj) page_offset MIN_CHUNK_PAGES of
                 Inl trap \<Rightarrow> Inl trap
               | Inr view \<Rightarrow>
                   (let flags = {PIN_OFFSET_GUARD_4K, PIN_MAPPABLE, PIN_NOSEARCH}
                                  \<union> (if view_type view = I915_GGTT_VIEW_NORMAL
                                      then {PIN_NONBLOCK} else {});
                        (r2, s2) = i915_gem_object_ggtt_pin_ww obj (Some view) flags
                                     (g_pin_view e) s1;
                        (r3, s3) =
                          (if pin_failed_not_deadlk r2
                           then i915_gem_object_ggtt_pin_ww obj
                                  (Some (view \<lparr> view_type := I915_GGTT_VIEW_PARTIAL \<rparr>))
                                  {PIN_OFFSET_GUARD_4K, PIN_MAPPABLE} (g_pin_partial e) s2
                           else (r2, s2))
                    in if r3 = Inl (- ENOSPC) then Inl BugOn else Inr (r3, s3)))
         else Inr (r1, s1))"

text \<open>
  The block under the GGTT's \<open>vm.mutex\<close>:
  \<open>if (!i915_vma_set_userfault(vma) && !obj->userfault_count++) list_add(...)\<close>.
  \<open>i915_vma_set_userfault\<close> sets the bit and returns its old value.
\<close>

definition mark_userfault :: "nat \<Rightarrow> nat \<Rightarrow> i915_state \<Rightarrow> i915_state" where
  "mark_userfault obj v s =
     (let old = vma_userfault (vmas s v);
          s1 = upd_vma v (\<lambda>x. x \<lparr> vma_userfault := True \<rparr>) s
      in if old then s1
         else
           let c = userfault_count (objs s1 obj);
               s2 = upd_obj obj (\<lambda>ob. ob \<lparr> userfault_count := c + 1 \<rparr>) s1
           in if c = 0 then s2 \<lparr> userfault_list := obj # userfault_list s2 \<rparr> else s2)"

text \<open>The unwinding labels, each falling through to the next.\<close>

definition gtt_err_pages :: "nat \<Rightarrow> i915_state \<Rightarrow> i915_state" where
  "gtt_err_pages obj s = i915_gem_object_unpin_pages obj s"

definition gtt_err_reset :: "nat \<Rightarrow> i915_state \<Rightarrow> i915_state" where
  "gtt_err_reset obj s = gtt_err_pages obj (emit EvResetUnlock s)"

definition gtt_err_unpin :: "nat \<Rightarrow> nat \<Rightarrow> i915_state \<Rightarrow> i915_state" where
  "gtt_err_unpin obj v s = gtt_err_reset obj (emit (EvVmaUnpin v) s)"

definition gtt_err_fence :: "nat \<Rightarrow> nat \<Rightarrow> i915_state \<Rightarrow> i915_state" where
  "gtt_err_fence obj v s = gtt_err_unpin obj v (emit (EvUnpinFence v) s)"

text \<open>
  From the cache check to the label \<open>err_fence\<close>, with the bound \<open>vma\<close>: the coherency
  check, the fence, \<open>remap_io_mapping\<close>, the userfault bookkeeping, and the unwinding,
  which the success path runs as well.
\<close>

definition vm_fault_gtt_map ::
  "i915_config \<Rightarrow> gtt_env \<Rightarrow> vm_fault \<Rightarrow> nat \<Rightarrow> nat \<Rightarrow> i915_state
     \<Rightarrow> kernel_trap + int \<times> i915_state" where
  "vm_fault_gtt_map cfg e vmf obj v s =
     (if \<not> (cache_level_none (objs s obj) \<or> has_llc cfg)
      then Inr (- EFAULT, gtt_err_unpin obj v s)
      else
        let s1 = emit (EvPinFence v (g_fence e)) s
        in if g_fence e \<noteq> 0 then Inr (g_fence e, gtt_err_unpin obj v s1)
           else
             let vma = vmas s1 v;
                 s2 = emit (EvRemapIoMapping
                              (vm_start vmf
                                 + push_bit PAGE_SHIFT (partial_offset (ggtt_view vma)))
                              (drop_bit PAGE_SHIFT (gmadr_start cfg + vma_ggtt_offset vma))
                              (min (vma_size vma) (vm_end vmf - vm_start vmf))
                              (g_remap e)) s1
             in if g_remap e \<noteq> 0 then Inr (g_remap e, gtt_err_fence obj v s2)
                else
                  let s3 = mark_userfault obj v s2;
                      s4 = upd_vma v (\<lambda>x. x \<lparr> vma_mmo := Some (vm_private_data vmf) \<rparr>) s3;
                      s5 = (if userfault_autosuspend cfg \<noteq> 0
                            then emit (EvWakerefAuto (userfault_autosuspend cfg)) s4 else s4)
                  in if vm_write vmf
                     then (if \<not> i915_gem_object_has_pinned_pages (objs s5 obj) then Inl BugOn
                           else Inr (0, gtt_err_fence obj v
                                          (upd_vma v (\<lambda>x. x \<lparr> vma_ggtt_write := True \<rparr>) s5)))
                     else Inr (0, gtt_err_fence obj v s5))"

text \<open>One attempt: from the label \<open>retry\<close> to the label \<open>err_rpm\<close>.\<close>

definition vm_fault_gtt_attempt ::
  "i915_config \<Rightarrow> gtt_env \<Rightarrow> vm_fault \<Rightarrow> nat \<Rightarrow> i915_state
     \<Rightarrow> kernel_trap + int \<times> i915_state" where
  "vm_fault_gtt_attempt cfg e vmf obj s =
     (let page_offset = drop_bit PAGE_SHIFT (vmf_address vmf - vm_start vmf);
          s0 = emit (EvObjectLock obj (g_lock e)) s
      in if g_lock e \<noteq> 0 then Inr (g_lock e, s0)
         else if is_readonly (objs s0 obj) \<and> vm_write vmf then Inr (- EFAULT, s0)
         else
           let s1 = i915_gem_object_pin_pages_sync obj (g_pin_pages e) s0
           in if g_pin_pages e \<noteq> 0 then Inr (g_pin_pages e, s1)
              else
                let s2 = emit (EvResetLock (g_reset_lock e)) s1
                in if g_reset_lock e \<noteq> 0 then Inr (g_reset_lock e, gtt_err_pages obj s2)
                   else case vm_fault_gtt_bind e obj page_offset s2 of
                          Inl trap \<Rightarrow> Inl trap
                        | Inr (Inl err, s3) \<Rightarrow> Inr (err, gtt_err_reset obj s3)
                        | Inr (Inr v, s3) \<Rightarrow> vm_fault_gtt_map cfg e vmf obj v s3)"

text \<open>
  The retry loop at \<open>err_rpm\<close>: on \<open>-EDEADLK\<close> back off and, when the backoff
  succeeds, go to \<open>retry\<close>. Each attempt takes the next environment; \<open>None\<close> means the
  attempts given did not bring the handler to its end.
\<close>

fun vm_fault_gtt_retry ::
  "i915_config \<Rightarrow> vm_fault \<Rightarrow> nat \<Rightarrow> gtt_env list \<Rightarrow> i915_state
     \<Rightarrow> (kernel_trap + int \<times> i915_state) option" where
  "vm_fault_gtt_retry cfg vmf obj [] s = None"
| "vm_fault_gtt_retry cfg vmf obj (e # es) s =
     (case vm_fault_gtt_attempt cfg e vmf obj s of
        Inl trap \<Rightarrow> Some (Inl trap)
      | Inr (ret, s1) \<Rightarrow>
          if ret = - EDEADLK
          then (let s2 = emit (EvWwBackoff (g_backoff e)) s1
                in if g_backoff e = 0 then vm_fault_gtt_retry cfg vmf obj es s2
                   else Some (Inr (g_backoff e, s2)))
          else Some (Inr (ret, s1)))"

text \<open>\<open>vm_fault_gtt\<close>.\<close>

definition vm_fault_gtt ::
  "i915_config \<Rightarrow> gtt_env list \<Rightarrow> vm_fault \<Rightarrow> i915_state
     \<Rightarrow> (kernel_trap + vm_fault_t \<times> i915_state) option" where
  "vm_fault_gtt cfg envs vmf s =
     (let obj = mmo_obj (mmos s (vm_private_data vmf));
          s0 = emit EvWwInit (emit EvRpmGet s)
      in case vm_fault_gtt_retry cfg vmf obj envs s0 of
           None \<Rightarrow> None
         | Some (Inl trap) \<Rightarrow> Some (Inl trap)
         | Some (Inr (ret, s1)) \<Rightarrow>
             Some (Inr (fault_return ret (emit EvRpmPut (emit EvWwFini s1)))))"

text \<open>
  The entries of the trace that pin pages, bind into the aperture, take a fence, fill
  page-table entries, migrate or create an object.
\<close>

fun touches_memory :: "event \<Rightarrow> bool" where
  "touches_memory (EvPinPages p r) = True"
| "touches_memory (EvGgttPin view flags r) = True"
| "touches_memory (EvPinFence v r) = True"
| "touches_memory (EvRemapIoMapping a pfn sz r) = True"
| "touches_memory (EvRemapIoSg pg a sz off io r) = True"
| "touches_memory (EvMigrateToSmem pg r) = True"
| "touches_memory (EvCreateShmem sz r) = True"
| "touches_memory ev = False"

text \<open>The number of page-table entries that the calls in a trace filled.\<close>

fun ptes_populated :: "event \<Rightarrow> 64 word" where
  "ptes_populated (EvRemapIoMapping a pfn sz r) = (if r = 0 then drop_bit PAGE_SHIFT sz else 0)"
| "ptes_populated (EvRemapIoSg pg a sz off io r) = (if r = 0 then drop_bit PAGE_SHIFT sz else 0)"
| "ptes_populated ev = 0"

text \<open>
  A run from \<open>s\<close> to \<open>s'\<close> is quiet when it left every object and every GGTT mapping as
  it was and added to the trace only entries that neither touch memory nor fill a
  page-table entry.
\<close>

definition quiet :: "i915_state \<Rightarrow> i915_state \<Rightarrow> bool" where
  "quiet s s' =
     (objs s' = objs s \<and> vmas s' = vmas s \<and> userfault_list s' = userfault_list s
      \<and> take (length (trace s)) (trace s') = trace s
      \<and> list_all (\<lambda>ev. \<not> touches_memory ev \<and> ptes_populated ev = 0)
           (drop (length (trace s)) (trace s')))"

subsection \<open>Revocation of user mappings\<close>

text \<open>
  \<open>for_each_ggtt_vma(vma, obj)\<close>: the object's list of mappings up to the first one that
  is not a GGTT mapping.
\<close>

definition ggtt_vmas :: "nat \<Rightarrow> i915_state \<Rightarrow> nat list" where
  "ggtt_vmas obj s = takeWhile (\<lambda>v. vma_is_ggtt (vmas s v)) (vma_list (objs s obj))"

text \<open>
  Modelled from the spec: \<open>i915_vma_revoke_mmap\<close> (in i915\_vma.c, outside this file),
  the inverse of the registration in \<open>vm_fault_gtt\<close>: "userfault count: count of live
  host-visible mappings requiring revocation", kept with the "device-wide revocation
  list". A mapping without the userfault bit is left alone. Otherwise its range is
  unmapped through the mmap offset it was faulted through, the bit is cleared, the
  object's count is lowered, and when the count reaches zero the object leaves the list.
  Revoking with a count of zero, or a mapping that has the bit but no mmap offset, is a
  trap.
\<close>

definition i915_vma_revoke_mmap :: "nat \<Rightarrow> nat \<Rightarrow> i915_state \<Rightarrow> kernel_trap + i915_state" where
  "i915_vma_revoke_mmap obj v s =
     (if \<not> vma_userfault (vmas s v) then Inr s
      else if userfault_count (objs s obj) = 0 then Inl BugOn
      else case vma_mmo (vmas s v) of
             None \<Rightarrow> Inl BugOn
           | Some m \<Rightarrow>
               (let vma = vmas s v;
                    s1 = emit (EvUnmapNodeRange m
                                 (drm_vma_node_offset_addr (vma_node (mmos s m))
                                    + push_bit PAGE_SHIFT (partial_offset (ggtt_view vma)))
                                 (vma_size vma)) s;
                    s2 = upd_vma v (\<lambda>x. x \<lparr> vma_userfault := False \<rparr>) s1;
                    c = userfault_count (objs s2 obj) - 1;
                    s3 = upd_obj obj (\<lambda>ob. ob \<lparr> userfault_count := c \<rparr>) s2
                in Inr (if c = 0
                        then s3 \<lparr> userfault_list := remove1 obj (userfault_list s3) \<rparr>
                        else s3)))"

text \<open>The loop \<open>for_each_ggtt_vma(vma, obj) i915_vma_revoke_mmap(vma)\<close>.\<close>

fun revoke_all :: "nat \<Rightarrow> nat list \<Rightarrow> i915_state \<Rightarrow> kernel_trap + i915_state" where
  "revoke_all obj [] s = Inr s"
| "revoke_all obj (v # vs) s =
     (case i915_vma_revoke_mmap obj v s of
        Inl trap \<Rightarrow> Inl trap
      | Inr s1 \<Rightarrow> revoke_all obj vs s1)"

text \<open>
  \<open>__i915_gem_object_release_mmap_gtt\<close>, with its two assertions: the count is not zero
  on entry and is zero after the loop.
\<close>

definition dunder_i915_gem_object_release_mmap_gtt ::
  "nat \<Rightarrow> i915_state \<Rightarrow> kernel_trap + i915_state" where
  "dunder_i915_gem_object_release_mmap_gtt obj s =
     (if userfault_count (objs s obj) = 0 then Inl BugOn
      else case revoke_all obj (ggtt_vmas obj s) s of
             Inl trap \<Rightarrow> Inl trap
           | Inr s1 \<Rightarrow> if userfault_count (objs s1 obj) \<noteq> 0 then Inl BugOn else Inr s1)"

text \<open>
  \<open>i915_gem_object_release_mmap_gtt\<close>: under the runtime-pm wakeref and the GGTT's
  mutex; it returns early when the count is zero.
\<close>

definition i915_gem_object_release_mmap_gtt :: "nat \<Rightarrow> i915_state \<Rightarrow> kernel_trap + i915_state" where
  "i915_gem_object_release_mmap_gtt obj s =
     (let s0 = emit EvRpmGet s
      in if userfault_count (objs s0 obj) = 0 then Inr (emit EvRpmPut s0)
         else case dunder_i915_gem_object_release_mmap_gtt obj s0 of
                Inl trap \<Rightarrow> Inl trap
              | Inr s1 \<Rightarrow> Inr (emit EvRpmPut (emit EvWmb s1)))"

text \<open>
  \<open>drm_vma_node_unmap_range\<close>, the helper of this file:
  \<open>unmap_mapping_range(mapping, drm_vma_node_offset_addr(node) + offset, length, 1)\<close>.
  The trace entry names the record whose node is unmapped, the start address and the
  length.
\<close>

definition drm_vma_node_unmap_range :: "nat \<Rightarrow> 64 word \<Rightarrow> 64 word \<Rightarrow> i915_state \<Rightarrow> i915_state" where
  "drm_vma_node_unmap_range m off len s =
     emit (EvUnmapNodeRange m (drm_vma_node_offset_addr (vma_node (mmos s m)) + off) len) s"

text \<open>
  \<open>i915_gem_object_release_mmap_offset\<close>. A segment unmaps its own range of its
  parent's offsets, and does nothing once the parent pointer is cleared. The loop is
  \<open>rbtree_postorder_for_each_entry_safe\<close> over the registry, skipping the GTT type.
\<close>

definition release_mmap_offset_loop ::
  "nat list \<Rightarrow> 64 word \<Rightarrow> 64 word \<Rightarrow> i915_state \<Rightarrow> i915_state" where
  "release_mmap_offset_loop ms vma_offset unmap_size s =
     foldl (\<lambda>st m. if mmap_type (mmos st m) = I915_MMAP_TYPE_GTT then st
                    else drm_vma_node_unmap_range m vma_offset unmap_size st)
           s ms"

definition i915_gem_object_release_mmap_offset :: "nat \<Rightarrow> i915_state \<Rightarrow> i915_state" where
  "i915_gem_object_release_mmap_offset obj s =
     (let unmap_size = base_size (objs s obj)
      in if is_segment (objs s obj)
         then (case parent (objs s obj) of
                 None \<Rightarrow> s
               | Some par \<Rightarrow>
                   release_mmap_offset_loop (postorder (mmo_offsets (objs s par)))
                     (segment_offset (objs s obj)) unmap_size s)
         else release_mmap_offset_loop (postorder (mmo_offsets (objs s obj))) 0 unmap_size s)"

text \<open>\<open>i915_gem_object_release_mmap\<close>.\<close>

definition i915_gem_object_release_mmap :: "nat \<Rightarrow> i915_state \<Rightarrow> kernel_trap + i915_state" where
  "i915_gem_object_release_mmap obj s =
     (case i915_gem_object_release_mmap_gtt obj s of
        Inl trap \<Rightarrow> Inl trap
      | Inr s1 \<Rightarrow> Inr (i915_gem_object_release_mmap_offset obj s1))"

text \<open>
  The userfault invariant of an object, which the registration in \<open>vm_fault_gtt\<close>
  keeps: the count is the number of its GGTT mappings with the userfault bit, each of
  those has the mmap offset it was faulted through, the object is on the GGTT's list
  exactly when the count is not zero, and no mapping or object is listed twice.
\<close>

definition userfault_ok :: "nat \<Rightarrow> i915_state \<Rightarrow> bool" where
  "userfault_ok obj s =
     (userfault_count (objs s obj)
        = length (filter (\<lambda>v. vma_userfault (vmas s v)) (ggtt_vmas obj s))
      \<and> distinct (vma_list (objs s obj))
      \<and> list_all (\<lambda>v. vma_userfault (vmas s v) \<longrightarrow> vma_mmo (vmas s v) \<noteq> None) (ggtt_vmas obj s)
      \<and> (obj \<in> set (userfault_list s) \<longleftrightarrow> 0 < userfault_count (objs s obj))
      \<and> distinct (userfault_list s))"

subsection \<open>A concrete device for the scenarios\<close>

text \<open>
  A device with no mmap offsets yet: every object pointer holds a 16-page shmem object,
  the offset manager spans \<open>DRM_FILE_PAGE_OFFSET_START\<close> and
  \<open>DRM_FILE_PAGE_OFFSET_SIZE\<close> of a 64-bit kernel, and nothing is allocated.
\<close>

definition idle_vma :: i915_vma where
  "idle_vma =
     \<lparr> vma_size = 0,
       ggtt_view = \<lparr> view_type = I915_GGTT_VIEW_NORMAL, partial_offset = 0, partial_size = 0 \<rparr>,
       vma_ggtt_offset = 0, vma_is_ggtt = True, vma_userfault = False,
       vma_ggtt_write = False, vma_mmo = None \<rparr>"

definition idle_region :: intel_memory_region where
  "idle_region = \<lparr> avail = 0, gt_wedged = False, iomap_base = 0, region_start = 0 \<rparr>"

definition idle_state :: i915_state where
  "idle_state =
     \<lparr> objs = (\<lambda>_. small_obj),
       mmos = (\<lambda>_. \<lparr> mmo_obj = 0, mmap_type = I915_MMAP_TYPE_GTT,
                      vma_node = drm_vma_node_reset \<rparr>),
       vmas = (\<lambda>_. idle_vma),
       regions = (\<lambda>_. idle_region),
       next_ptr = 0,
       vma_offset_manager = \<lparr> mgr_start = 0x100000, mgr_pages = 0xFFFFF00, mgr_nodes = [] \<rparr>,
       userfault_list = [],
       invalidate_lmem_mmaps = False,
       active_fault_handlers = 0,
       warned_once = False,
       trace = [] \<rparr>"

definition test_config :: i915_config where
  "test_config =
     \<lparr> chicken_mmap_swap = True, chicken_mmap_swap_create = True,
       userfault_autosuspend = 250, has_flat_ccs = False, has_llc = True,
       gmadr_start = 0, num_gt = 1 \<rparr>"

text \<open>An environment in which every allocation succeeds and nothing is reaped.\<close>

definition good_attach_env :: attach_env where
  "good_attach_env = \<lparr> kmalloc_mmo_ok = True, reaped_nodes = [], kmalloc_file_ok = True \<rparr>"

text \<open>
  The schedule of the race: both callers look up and find nothing, both allocate, the
  first commits, the second commits, then both finish.
\<close>

definition race_schedule :: "bool list" where
  "race_schedule =
     [True, False, True, False, True, False, True, False, True, False]"

text \<open>
  A device whose offset space of 16 pages is taken by one node of a dead object, and
  environments that reap that node or nothing, with and without memory for the
  allow-list entry.
\<close>

definition full_state :: i915_state where
  "full_state =
     idle_state \<lparr> vma_offset_manager :=
       \<lparr> mgr_start = 0x100000, mgr_pages = 16, mgr_nodes = [(0x100000, 16)] \<rparr> \<rparr>"

definition reaping_env :: attach_env where
  "reaping_env =
     \<lparr> kmalloc_mmo_ok = True, reaped_nodes = [(0x100000, 16)], kmalloc_file_ok = True \<rparr>"

definition reaping_env_nomem :: attach_env where
  "reaping_env_nomem = reaping_env \<lparr> kmalloc_file_ok := False \<rparr>"

text \<open>
  A device-local object of 1 MiB with no pages, at pointer 3 of a device whose next free
  pointer is 10, in a region with 1.5 MiB of free budget; and an environment in which
  every call succeeds, nothing is flushed and no migration is asked for.
\<close>

definition lmem_obj :: drm_i915_gem_object where
  "lmem_obj = (shmem_object 0x100000 3) \<lparr> is_lmem := True, has_struct_page := False \<rparr>"

definition lmem_state :: i915_state where
  "lmem_state =
     idle_state \<lparr> objs := (objs idle_state)(3 := lmem_obj),
                  regions := (\<lambda>_. idle_region \<lparr> avail := 0x180000 \<rparr>),
                  next_ptr := 10 \<rparr>"

definition good_cpu_env :: cpu_env where
  "good_cpu_env =
     \<lparr> c_lock = 0, c_flush_freed = 0, c_create_shmem = 0, c_should_migrate = False,
       c_required = False, c_migrate = 0, c_pin_pages = 0, c_remap = 0, c_backoff = 0 \<rparr>"

text \<open>The same device with 4 MiB of free budget in the region.\<close>

definition roomy_lmem_state :: i915_state where
  "roomy_lmem_state = lmem_state \<lparr> regions := (\<lambda>_. idle_region \<lparr> avail := 0x400000 \<rparr>) \<rparr>"

text \<open>
  A read-only object at pointer 3, mapped through mmap offset 0, and a write fault on
  its first page; environments in which every call succeeds, and in which the lock is
  interrupted by a signal.
\<close>

definition readonly_state :: i915_state where
  "readonly_state =
     idle_state \<lparr> objs := (objs idle_state)(3 := small_obj \<lparr> is_readonly := True \<rparr>),
                  mmos := (mmos idle_state)(0 := \<lparr> mmo_obj = 3, mmap_type = I915_MMAP_TYPE_GTT,
                                                  vma_node = drm_vma_node_reset \<rparr>),
                  next_ptr := 10 \<rparr>"

definition write_fault :: vm_fault where
  "write_fault =
     \<lparr> vmf_address = 0x7f0000001000, vm_start = 0x7f0000000000, vm_end = 0x7f0000010000,
       vm_pgoff = 0, vm_write = True, vm_private_data = 0 \<rparr>"

definition good_gtt_env :: gtt_env where
  "good_gtt_env =
     \<lparr> g_lock = 0, g_pin_pages = 0, g_reset_lock = 0,
       g_pin_full = Inr (20, idle_vma \<lparr> vma_size := 0x10000 \<rparr>),
       g_pin_view = Inl (- ENOSPC), g_pin_partial = Inl (- ENOSPC),
       g_fence = 0, g_remap = 0, g_backoff = 0 \<rparr>"

definition interrupted_gtt_env :: gtt_env where
  "interrupted_gtt_env = good_gtt_env \<lparr> g_lock := - EINTR \<rparr>"

text \<open>The same device with the object writable.\<close>

definition writable_state :: i915_state where
  "writable_state =
     readonly_state \<lparr> objs := (objs readonly_state)
        (3 := small_obj \<lparr> cache_level_none := True \<rparr>) \<rparr>"

text \<open>
  For the migration policy: a build without the swap options, the device-local object
  at pointer 3 mapped through mmap offset 0 and already pinned once, and environments
  that ask for a migration.
\<close>

definition plain_config :: i915_config where
  "plain_config = test_config \<lparr> chicken_mmap_swap := False \<rparr>"

definition pinned_lmem_state :: i915_state where
  "pinned_lmem_state =
     lmem_state \<lparr> objs := (objs lmem_state)
                      (3 := lmem_obj \<lparr> has_pages := True, pages_pin_count := 1 \<rparr>),
                  mmos := (mmos lmem_state)(0 := \<lparr> mmo_obj = 3, mmap_type = I915_MMAP_TYPE_WC,
                                                 vma_node = drm_vma_node_reset \<rparr>) \<rparr>"

definition unpinned_lmem_state :: i915_state where
  "unpinned_lmem_state =
     lmem_state \<lparr> mmos := (mmos lmem_state)(0 := \<lparr> mmo_obj = 3, mmap_type = I915_MMAP_TYPE_WC,
                                                 vma_node = drm_vma_node_reset \<rparr>) \<rparr>"

definition required_migrate_env :: cpu_env where
  "required_migrate_env = good_cpu_env \<lparr> c_should_migrate := True, c_required := True \<rparr>"

definition optional_migrate_env :: cpu_env where
  "optional_migrate_env =
     good_cpu_env \<lparr> c_should_migrate := True, c_required := False, c_migrate := - EBUSY \<rparr>"

definition deadlock_migrate_env :: cpu_env where
  "deadlock_migrate_env =
     good_cpu_env \<lparr> c_should_migrate := True, c_required := False, c_migrate := - EDEADLK,
                    c_backoff := - EINTR \<rparr>"


text \<open>
  An object at pointer 3 with a GTT, a write-combined and a write-back mmap offset
  (records 0, 1, 2 at page offsets 0x100000, 0x100010, 0x100020) and two GGTT mappings
  (20 and 21) faulted through the GTT offset: its userfault count is 2 and it is on the
  revocation list.
\<close>

definition mapped_state :: i915_state where
  "mapped_state =
     idle_state
       \<lparr> objs := (objs idle_state)
            (3 := small_obj \<lparr> userfault_count := 2, vma_list := [20, 21],
                              mmo_offsets := Node (Node Leaf 0 Leaf) 1 (Node Leaf 2 Leaf) \<rparr>),
         mmos := (mmos idle_state)
            (0 := \<lparr> mmo_obj = 3, mmap_type = I915_MMAP_TYPE_GTT,
                    vma_node = \<lparr> vm_node_start = 0x100000, vm_node_size = 16,
                                 vm_node_allocated = True, vm_files = [100] \<rparr> \<rparr>,
             1 := \<lparr> mmo_obj = 3, mmap_type = I915_MMAP_TYPE_WC,
                    vma_node = \<lparr> vm_node_start = 0x100010, vm_node_size = 16,
                                 vm_node_allocated = True, vm_files = [100] \<rparr> \<rparr>,
             2 := \<lparr> mmo_obj = 3, mmap_type = I915_MMAP_TYPE_WB,
                    vma_node = \<lparr> vm_node_start = 0x100020, vm_node_size = 16,
                                 vm_node_allocated = True, vm_files = [100] \<rparr> \<rparr>),
         vmas := (vmas idle_state)
            (20 := idle_vma \<lparr> vma_size := 0x8000, vma_userfault := True, vma_mmo := Some 0,
                              ggtt_view := \<lparr> view_type = I915_GGTT_VIEW_PARTIAL,
                                             partial_offset = 0, partial_size = 8 \<rparr> \<rparr>,
             21 := idle_vma \<lparr> vma_size := 0x8000, vma_userfault := True, vma_mmo := Some 0,
                              ggtt_view := \<lparr> view_type = I915_GGTT_VIEW_PARTIAL,
                                             partial_offset = 8, partial_size = 8 \<rparr> \<rparr>),
         next_ptr := 30,
         userfault_list := [3] \<rparr>"

text \<open>
  The tiled object of 270 pages at pointer 3, mapped through mmap offset 0; and an
  aperture with no room for it until eviction is allowed: the first two bindings fail
  with \<open>-ENOSPC\<close>, the third gives mapping 20.
\<close>

definition row96_state :: i915_state where
  "row96_state =
     writable_state \<lparr> objs := (objs writable_state)
        (3 := row96_obj \<lparr> cache_level_none := True \<rparr>) \<rparr>"

definition fragmented_gtt_env :: gtt_env where
  "fragmented_gtt_env =
     good_gtt_env
       \<lparr> g_pin_full := Inl (- ENOSPC), g_pin_view := Inl (- ENOSPC),
         g_pin_partial :=
           Inr (20, idle_vma \<lparr> vma_size := 0x10E000,
                               ggtt_view := \<lparr> view_type = I915_GGTT_VIEW_PARTIAL,
                                              partial_offset = 0, partial_size = 270 \<rparr> \<rparr>) \<rparr>"

text \<open>The same aperture when the second binding, of the view, succeeds.\<close>

definition crowded_gtt_env :: gtt_env where
  "crowded_gtt_env =
     good_gtt_env
       \<lparr> g_pin_full := Inl (- ENOSPC),
         g_pin_view := Inr (20, idle_vma \<lparr> vma_size := 0x10E000 \<rparr>) \<rparr>"

section \<open>Verification\<close>

subsection \<open>Error translation\<close>

lemma i915_error_to_vmf_fault_recognised:
  "fst (i915_error_to_vmf_fault w (- ENOMEM)) = VM_FAULT_OOM"
  "fst (i915_error_to_vmf_fault w (- EIO)) = VM_FAULT_SIGBUS"
  "fst (i915_error_to_vmf_fault w (- EFAULT)) = VM_FAULT_SIGBUS"
  "fst (i915_error_to_vmf_fault w (- ENODEV)) = VM_FAULT_SIGBUS"
  "fst (i915_error_to_vmf_fault w (- ENXIO)) = VM_FAULT_SIGBUS"
  "fst (i915_error_to_vmf_fault w (- E2BIG)) = VM_FAULT_SIGBUS"
  "fst (i915_error_to_vmf_fault w 0) = VM_FAULT_NOPAGE"
  "fst (i915_error_to_vmf_fault w (- EAGAIN)) = VM_FAULT_NOPAGE"
  "fst (i915_error_to_vmf_fault w (- ENOSPC)) = VM_FAULT_NOPAGE"
  "fst (i915_error_to_vmf_fault w (- ERESTARTSYS)) = VM_FAULT_NOPAGE"
  "fst (i915_error_to_vmf_fault w (- EINTR)) = VM_FAULT_NOPAGE"
  "fst (i915_error_to_vmf_fault w (- EBUSY)) = VM_FAULT_NOPAGE"
  by (simp_all add: i915_error_to_vmf_fault_def errno_defs)

lemma i915_error_to_vmf_fault_silent:
  "err \<in> recognised_errors \<Longrightarrow> snd (i915_error_to_vmf_fault w err) = (False, w)"
  by (auto simp: i915_error_to_vmf_fault_def recognised_errors_def errno_defs)

lemma i915_error_to_vmf_fault_default:
  "err \<notin> recognised_errors \<Longrightarrow>
     i915_error_to_vmf_fault w err = (VM_FAULT_SIGBUS, \<not> w, True)"
  by (auto simp: i915_error_to_vmf_fault_def recognised_errors_def WARN_ONCE_def)

text \<open>
  C5. The translation is total and its range is exactly the three fault outcomes:
  \<open>-ENOMEM\<close> gives the out-of-memory outcome; \<open>-EIO\<close>, \<open>-EFAULT\<close>, \<open>-ENODEV\<close>,
  \<open>-ENXIO\<close>, \<open>-E2BIG\<close> give the bus error; \<open>0\<close>, \<open>-EAGAIN\<close>, \<open>-ENOSPC\<close>,
  \<open>-ERESTARTSYS\<close>, \<open>-EINTR\<close>, \<open>-EBUSY\<close> give the retryable no-page outcome, all of
  them without a warning; every other value gives the bus error and trips
  \<open>WARN_ONCE\<close>, which prints only while its flag is clear and leaves the flag set, so
  the warning is printed once.
\<close>

theorem C5_error_translation:
  "range (\<lambda>err. fst (i915_error_to_vmf_fault w err))
     = {VM_FAULT_SIGBUS, VM_FAULT_OOM, VM_FAULT_NOPAGE}
   \<and> i915_error_to_vmf_fault w (- ENOMEM) = (VM_FAULT_OOM, False, w)
   \<and> (\<forall>err \<in> {- EIO, - EFAULT, - ENODEV, - ENXIO, - E2BIG}.
         i915_error_to_vmf_fault w err = (VM_FAULT_SIGBUS, False, w))
   \<and> (\<forall>err \<in> {0, - EAGAIN, - ENOSPC, - ERESTARTSYS, - EINTR, - EBUSY}.
         i915_error_to_vmf_fault w err = (VM_FAULT_NOPAGE, False, w))
   \<and> (\<forall>err. err \<notin> recognised_errors \<longrightarrow>
         i915_error_to_vmf_fault w err = (VM_FAULT_SIGBUS, \<not> w, True))"
proof -
  have r: "range (\<lambda>err. fst (i915_error_to_vmf_fault w err))
             = {VM_FAULT_SIGBUS, VM_FAULT_OOM, VM_FAULT_NOPAGE}"
  proof
    show "range (\<lambda>err. fst (i915_error_to_vmf_fault w err))
            \<subseteq> {VM_FAULT_SIGBUS, VM_FAULT_OOM, VM_FAULT_NOPAGE}"
    proof
      fix x assume "x \<in> range (\<lambda>err. fst (i915_error_to_vmf_fault w err))"
      then show "x \<in> {VM_FAULT_SIGBUS, VM_FAULT_OOM, VM_FAULT_NOPAGE}"
        by (cases x) simp_all
    qed
  next
    have "VM_FAULT_SIGBUS \<in> range (\<lambda>err. fst (i915_error_to_vmf_fault w err))"
      using i915_error_to_vmf_fault_recognised(2) [of w, symmetric] by (rule range_eqI)
    moreover have "VM_FAULT_OOM \<in> range (\<lambda>err. fst (i915_error_to_vmf_fault w err))"
      using i915_error_to_vmf_fault_recognised(1) [of w, symmetric] by (rule range_eqI)
    moreover have "VM_FAULT_NOPAGE \<in> range (\<lambda>err. fst (i915_error_to_vmf_fault w err))"
      using i915_error_to_vmf_fault_recognised(7) [of w, symmetric] by (rule range_eqI)
    ultimately show "{VM_FAULT_SIGBUS, VM_FAULT_OOM, VM_FAULT_NOPAGE}
            \<subseteq> range (\<lambda>err. fst (i915_error_to_vmf_fault w err))"
      by simp
  qed
  have oom: "i915_error_to_vmf_fault w (- ENOMEM) = (VM_FAULT_OOM, False, w)"
    by (simp add: i915_error_to_vmf_fault_def errno_defs)
  have bus: "\<forall>err \<in> {- EIO, - EFAULT, - ENODEV, - ENXIO, - E2BIG}.
               i915_error_to_vmf_fault w err = (VM_FAULT_SIGBUS, False, w)"
    by (simp add: i915_error_to_vmf_fault_def errno_defs)
  have nop: "\<forall>err \<in> {0, - EAGAIN, - ENOSPC, - ERESTARTSYS, - EINTR, - EBUSY}.
               i915_error_to_vmf_fault w err = (VM_FAULT_NOPAGE, False, w)"
    by (simp add: i915_error_to_vmf_fault_def errno_defs)
  have dflt: "\<forall>err. err \<notin> recognised_errors \<longrightarrow>
         i915_error_to_vmf_fault w err = (VM_FAULT_SIGBUS, \<not> w, True)"
    using i915_error_to_vmf_fault_default by simp
  from r oom bus nop dflt show ?thesis by blast
qed

theorem C5_error_translation_witness:
  "i915_error_to_vmf_fault False (- EIO) = (VM_FAULT_SIGBUS, False, False)
   \<and> i915_error_to_vmf_fault False (- EBUSY) = (VM_FAULT_NOPAGE, False, False)
   \<and> (- 1) \<notin> recognised_errors
   \<and> i915_error_to_vmf_fault False (- 1) = (VM_FAULT_SIGBUS, True, True)
   \<and> i915_error_to_vmf_fault True (- 1) = (VM_FAULT_SIGBUS, False, True)"
proof -
  have n: "(- 1) \<notin> recognised_errors"
    by (simp add: recognised_errors_def errno_defs)
  have bus: "\<forall>err \<in> {- EIO, - EFAULT, - ENODEV, - ENXIO, - E2BIG}.
               i915_error_to_vmf_fault False err = (VM_FAULT_SIGBUS, False, False)"
    and nop: "\<forall>err \<in> {0, - EAGAIN, - ENOSPC, - ERESTARTSYS, - EINTR, - EBUSY}.
               i915_error_to_vmf_fault False err = (VM_FAULT_NOPAGE, False, False)"
    and d0: "\<forall>err. err \<notin> recognised_errors \<longrightarrow>
               i915_error_to_vmf_fault False err = (VM_FAULT_SIGBUS, \<not> False, True)"
    using C5_error_translation [of False] by simp_all
  have d1: "\<forall>err. err \<notin> recognised_errors \<longrightarrow>
               i915_error_to_vmf_fault True err = (VM_FAULT_SIGBUS, \<not> True, True)"
    using C5_error_translation [of True] by simp
  have a: "i915_error_to_vmf_fault False (- EIO) = (VM_FAULT_SIGBUS, False, False)"
    using bus by simp
  have b: "i915_error_to_vmf_fault False (- EBUSY) = (VM_FAULT_NOPAGE, False, False)"
    using nop by simp
  have c: "i915_error_to_vmf_fault False (- 1) = (VM_FAULT_SIGBUS, True, True)"
    using d0 n by simp
  have d: "i915_error_to_vmf_fault True (- 1) = (VM_FAULT_SIGBUS, False, True)"
    using d1 n by simp
  from n a b c d show ?thesis by simp
qed

subsection \<open>The partial view\<close>


lemma unat_tile_row_pages: "unat (tile_row_pages obj) < 2^20"
proof -
  have "unat (tile_row_size obj) < 2^32" using unsigned_less [of "tile_row_size obj"] by simp
  then have "unat (tile_row_size obj) div 2^12 < 2^20" by simp
  then show ?thesis
    by (simp add: tile_row_pages_def PAGE_SHIFT_def unat_drop_bit_eq drop_bit_eq_div unat_div)
qed

lemma unat_roundup_u32:
  assumes "y \<noteq> 0" and "unat x + unat y \<le> 2^32"
  shows "unat (roundup_u32 x y) = ((unat x + (unat y - 1)) div unat y) * unat y"
proof -
  have y0: "0 < unat y" using assms(1) by (simp add: unat_gt_0)
  have m1: "unat (y - 1) = unat y - 1" using assms(1) by (simp add: unat_minus_one)
  have s: "unat (x + (y - 1)) = unat x + (unat y - 1)"
    using assms(2) y0 m1 by (simp add: unat_add_lem [THEN iffD1])
  have d: "unat ((x + (y - 1)) div y) = (unat x + (unat y - 1)) div unat y"
    by (simp add: unat_div s)
  have le: "((unat x + (unat y - 1)) div unat y) * unat y \<le> unat x + (unat y - 1)"
    by simp
  have "((unat x + (unat y - 1)) div unat y) * unat y < 2^32"
    using le assms(2) y0 by linarith
  then have "unat (((x + (y - 1)) div y) * y) = unat ((x + (y - 1)) div y) * unat y"
    using d by (simp add: unat_mult_lem [THEN iffD1])
  then show ?thesis by (simp add: roundup_u32_def d)
qed

lemma unat_rounddown_u64:
  "unat (rounddown_u64 x y) = unat x - unat x mod unat y"
proof -
  have "unat (x mod y) \<le> unat x" by (simp add: unat_mod)
  then have "x mod y \<le> x" by (simp add: word_le_nat_alt)
  then show ?thesis by (simp add: rounddown_u64_def unat_sub unat_mod)
qed

text \<open>Rounding up in the naturals: the least multiple of y that is at least x.\<close>

lemma nat_roundup_props:
  fixes x y :: nat
  assumes "0 < y"
  shows "y dvd ((x + (y - 1)) div y) * y"
    and "x \<le> ((x + (y - 1)) div y) * y"
    and "((x + (y - 1)) div y) * y < x + y"
proof -
  show "y dvd ((x + (y - 1)) div y) * y" by simp
  have e: "((x + (y - 1)) div y) * y = (x + (y - 1)) - (x + (y - 1)) mod y"
    by (simp add: minus_mod_eq_div_mult [symmetric])
  have m: "(x + (y - 1)) mod y \<le> y - 1"
    using assms by (metis Suc_pred' less_Suc_eq_le mod_less_divisor)
  show "x \<le> ((x + (y - 1)) div y) * y" using e m by linarith
  show "((x + (y - 1)) div y) * y < x + y" using e assms by linarith
qed

lemma partial_chunk_props:
  assumes "0 < unat chunk0" and "unat chunk0 \<le> 2^32 - 2^20"
  shows "unat chunk0 \<le> unat (partial_chunk obj chunk0)"
    and "\<not> i915_gem_object_is_tiled obj \<Longrightarrow> partial_chunk obj chunk0 = chunk0"
    and "i915_gem_object_is_tiled obj \<Longrightarrow> tile_row_pages obj \<noteq> 0 \<Longrightarrow>
           unat (tile_row_pages obj) dvd unat (partial_chunk obj chunk0)
           \<and> unat (partial_chunk obj chunk0) < unat chunk0 + unat (tile_row_pages obj)"
    and "i915_gem_object_is_tiled obj \<Longrightarrow> tile_row_pages obj = 0 \<Longrightarrow>
           partial_chunk obj chunk0 = chunk0"
proof -
  let ?t = "if tile_row_pages obj \<noteq> 0 then tile_row_pages obj else 1"
  have t0: "?t \<noteq> 0" by simp
  have tl: "unat ?t < 2^20" using unat_tile_row_pages [of obj] by simp
  have nov: "unat chunk0 + unat ?t \<le> 2^32" using assms(2) tl by simp
  have u: "unat (roundup_u32 chunk0 ?t) = ((unat chunk0 + (unat ?t - 1)) div unat ?t) * unat ?t"
    by (rule unat_roundup_u32 [OF t0 nov])
  have tp: "0 < unat ?t" using t0 by (simp add: unat_gt_0)
  note rp = nat_roundup_props [OF tp, of "unat chunk0"]
  show "unat chunk0 \<le> unat (partial_chunk obj chunk0)"
    using rp(2) u by (simp add: partial_chunk_def)
  show "\<not> i915_gem_object_is_tiled obj \<Longrightarrow> partial_chunk obj chunk0 = chunk0"
    by (simp add: partial_chunk_def)
  show "i915_gem_object_is_tiled obj \<Longrightarrow> tile_row_pages obj \<noteq> 0 \<Longrightarrow>
           unat (tile_row_pages obj) dvd unat (partial_chunk obj chunk0)
           \<and> unat (partial_chunk obj chunk0) < unat chunk0 + unat (tile_row_pages obj)"
    using rp(1) rp(3) u by (simp add: partial_chunk_def)
  show "i915_gem_object_is_tiled obj \<Longrightarrow> tile_row_pages obj = 0 \<Longrightarrow>
           partial_chunk obj chunk0 = chunk0"
    by (simp add: partial_chunk_def roundup_u32_def)
qed

lemma partial_chunk_nonzero:
  assumes "0 < unat chunk0" and "unat chunk0 \<le> 2^32 - 2^20"
  shows "partial_chunk obj chunk0 \<noteq> 0"
  using partial_chunk_props(1) [OF assms, of obj] assms(1) by (auto simp: unat_eq_zero)

text \<open>The view in the naturals, when the chunk is not zero and the page count fits 32 bits.\<close>

lemma compute_partial_view_nat:
  assumes c: "partial_chunk obj chunk0 \<noteq> 0"
    and n: "unat (obj_pages obj) < 2^32"
    and p: "page_offset < obj_pages obj"
  defines "c \<equiv> unat (partial_chunk obj chunk0)"
  shows "\<exists>v. compute_partial_view obj page_offset chunk0 = Inr v
          \<and> unat (partial_offset v) = (unat page_offset div c) * c
          \<and> unat (partial_size v) = min c (unat (obj_pages obj) - unat (partial_offset v))"
proof -
  let ?ch = "partial_chunk obj chunk0"
  let ?off = "rounddown_u64 page_offset (ucast ?ch)"
  have "unat ?ch < 2^32" using unsigned_less [of ?ch] by simp
  then have "unat ?ch < (2::nat)^64" by simp
  then have uc: "unat (ucast ?ch :: 64 word) = c"
    by (simp add: c_def unsigned_ucast_eq take_bit_nat_eq_self)
  have off: "unat ?off = unat page_offset - unat page_offset mod c"
    by (simp add: unat_rounddown_u64 uc)
  have off': "unat ?off = (unat page_offset div c) * c"
    using off by (simp add: minus_mod_eq_div_mult)
  have pl: "unat page_offset < unat (obj_pages obj)"
    using p by (simp add: word_less_nat_alt)
  have ole: "unat ?off \<le> unat page_offset" using off by simp
  have le: "?off \<le> obj_pages obj"
    using ole pl by (simp add: word_le_nat_alt)
  have d: "unat (obj_pages obj - ?off) = unat (obj_pages obj) - unat ?off"
    using le by (simp add: unat_sub)
  have dl: "unat (obj_pages obj - ?off) < 2^32" using d n by linarith
  have tr: "unat (ucast (obj_pages obj - ?off) :: 32 word) = unat (obj_pages obj - ?off)"
    using dl by (simp add: unsigned_ucast_eq take_bit_nat_eq_self)
  have mn: "unat (min ?ch (ucast (obj_pages obj - ?off) :: 32 word))
              = min c (unat (obj_pages obj) - unat ?off)"
    by (simp add: min_def word_le_nat_alt tr d c_def)
  show ?thesis
    using c off' mn by (simp add: compute_partial_view_def Let_def)
qed





lemma scenario_view_eval: "compute_partial_view scenario_tiled_obj 300 MIN_CHUNK_PAGES
   = Inr \<lparr> view_type = I915_GGTT_VIEW_PARTIAL, partial_offset = 256, partial_size = 256 \<rparr>"
  by (simp add: compute_partial_view_def partial_chunk_def roundup_u32_def rounddown_u64_def
      scenario_tiled_obj_def shmem_object_def obj_pages_def tile_row_pages_def PAGE_SHIFT_def
      MIN_CHUNK_PAGES_def i915_gem_object_is_tiled_def drop_bit_eq_div Let_def)

text \<open>
  Beyond 32 bits of pages the view would lose the faulting page:
  \<open>min_t(unsigned int, ...)\<close> truncates the 64-bit distance to the end of the object,
  so for \<open>2^32 + 5\<close> pages and a fault at page 100 the view would be pages 0 to 4.
  No such object reaches \<open>compute_partial_view\<close>: its only caller, \<open>vm_fault_gtt\<close>,
  takes the object from an mmap offset, and \<open>i915_gem_mmap_offset_attach\<close> gives an
  object an mmap offset only after \<open>drm_vma_offset_add\<close> has placed a node of the
  object's page count in the device's offset space, which is shorter than \<open>2^32\<close>
  pages.
\<close>

lemma compute_partial_view_beyond_u32: "(100 :: 64 word) < obj_pages huge_obj
   \<and> compute_partial_view huge_obj 100 MIN_CHUNK_PAGES
   = Inr \<lparr> view_type = I915_GGTT_VIEW_PARTIAL, partial_offset = 0, partial_size = 5 \<rparr>
   \<and> \<not> (unat (100 :: 64 word) < unat (0 :: 64 word) + unat (5 :: 32 word))"
  by (simp add: compute_partial_view_def partial_chunk_def roundup_u32_def rounddown_u64_def
      huge_obj_def shmem_object_def obj_pages_def tile_row_pages_def PAGE_SHIFT_def
      MIN_CHUNK_PAGES_def i915_gem_object_is_tiled_def drop_bit_eq_div Let_def)

lemma drm_mm_insert_node_within:
  assumes "drm_mm_insert_node mgr n = Some st"
  shows "n \<le> mgr_pages mgr"
proof -
  have "mgr_fits mgr st n"
    using assms by (auto simp: drm_mm_insert_node_def find_Some_iff split: if_splits)
  then show ?thesis by (simp add: mgr_fits_def)
qed

text \<open>
  An object that \<open>drm_vma_offset_add\<close> gave a fresh node is no longer, in pages, than
  the offset space; in the offset space of the device, \<open>0xFFFFF00\<close> pages, the object
  of \<open>2^32 + 5\<close> pages gets none.
\<close>

lemma attach_offset_add_within:
  assumes "fst (attach_offset_add obj p s) = 0"
    and "\<not> vm_node_allocated (vma_node (mmos s p))"
  shows "unat (obj_pages (objs s obj)) \<le> mgr_pages (vma_offset_manager s)"
proof -
  let ?n = "unat (base_size (objs s obj) div 4096)"
  have e: "unat (obj_pages (objs s obj)) = ?n"
    by (simp add: obj_pages_def PAGE_SHIFT_def drop_bit_eq_div)
  have ne: "- ENOSPC \<noteq> (0::int)" by (simp add: errno_defs)
  obtain st where "drm_mm_insert_node (vma_offset_manager s) ?n = Some st"
    using assms ne
    by (auto simp: attach_offset_add_def drm_vma_offset_add_def Let_def
          split: option.splits prod.splits)
  then have "?n \<le> mgr_pages (vma_offset_manager s)" by (rule drm_mm_insert_node_within)
  then show ?thesis using e by simp
qed

lemma huge_obj_no_mmap_offset:
  "drm_mm_insert_node (vma_offset_manager idle_state) (unat (obj_pages huge_obj)) = None"
proof -
  have n: "unat (obj_pages huge_obj) = 4294967301"
    by (simp add: huge_obj_def shmem_object_def obj_pages_def PAGE_SHIFT_def drop_bit_eq_div)
  show ?thesis
    unfolding n by (simp add: drm_mm_insert_node_def mgr_fits_def idle_state_def)
qed


text \<open>
  C3. For every object that can have an mmap offset (a page count below \<open>2^32\<close>, see
  above), every faulting page offset within the object and every requested chunk of at
  least \<open>MIN_CHUNK_PAGES\<close> (1 MiB of pages; at most \<open>2^32 - 2^20\<close> pages, so that
  rounding up cannot wrap; the caller passes \<open>MIN_CHUNK_PAGES\<close>):
  \<open>compute_partial_view\<close> returns a view that contains the faulting page and ends
  within the object; the view starts at a multiple of the window and its size is the
  window cut off at the end of the object; the window is the requested chunk, and for
  a tiled object (with a tile row of at least one page) the least multiple of the tile
  row that is not below the requested chunk.
\<close>

theorem C3_partial_view:
  assumes n: "unat (obj_pages obj) < 2^32"
    and p: "page_offset < obj_pages obj"
    and c1: "MIN_CHUNK_PAGES \<le> chunk0"
    and c2: "unat chunk0 \<le> 2^32 - 2^20"
  shows "\<exists>v. compute_partial_view obj page_offset chunk0 = Inr v
     \<and> partial_offset v \<le> page_offset
     \<and> unat page_offset < unat (partial_offset v) + unat (partial_size v)
     \<and> unat (partial_offset v) + unat (partial_size v) \<le> unat (obj_pages obj)
     \<and> unat (partial_chunk obj chunk0) dvd unat (partial_offset v)
     \<and> unat (partial_size v)
         = min (unat (partial_chunk obj chunk0)) (unat (obj_pages obj) - unat (partial_offset v))
     \<and> unat chunk0 \<le> unat (partial_chunk obj chunk0)
     \<and> (if i915_gem_object_is_tiled obj \<and> tile_row_pages obj \<noteq> 0
         then unat (tile_row_pages obj) dvd unat (partial_chunk obj chunk0)
              \<and> unat (partial_chunk obj chunk0) < unat chunk0 + unat (tile_row_pages obj)
         else partial_chunk obj chunk0 = chunk0)"
proof -
  let ?c = "unat (partial_chunk obj chunk0)"
  have m: "unat MIN_CHUNK_PAGES = 256"
    by (simp add: MIN_CHUNK_PAGES_def PAGE_SHIFT_def drop_bit_eq_div)
  have c0: "0 < unat chunk0" using c1 m by (simp add: word_le_nat_alt)
  note cp = partial_chunk_props [OF c0 c2, of obj]
  have nz: "partial_chunk obj chunk0 \<noteq> 0" by (rule partial_chunk_nonzero [OF c0 c2])
  have cpos: "0 < ?c" using nz by (simp add: unat_gt_0)
  from compute_partial_view_nat [OF nz n p] obtain v where
    v: "compute_partial_view obj page_offset chunk0 = Inr v"
    and o: "unat (partial_offset v) = (unat page_offset div ?c) * ?c"
    and s: "unat (partial_size v) = min ?c (unat (obj_pages obj) - unat (partial_offset v))"
    by blast
  have pl: "unat page_offset < unat (obj_pages obj)" using p by (simp add: word_less_nat_alt)
  have ole: "unat (partial_offset v) \<le> unat page_offset" using o by simp
  have a: "partial_offset v \<le> page_offset" using ole by (simp add: word_le_nat_alt)
  have r: "unat page_offset - unat (partial_offset v) = unat page_offset mod ?c"
    using o by (simp add: minus_div_mult_eq_mod)
  have rl: "unat page_offset mod ?c < ?c" using cpos by simp
  have b: "unat page_offset < unat (partial_offset v) + unat (partial_size v)"
    using s r rl ole pl by (simp add: min_def split: if_splits)
  have c: "unat (partial_offset v) + unat (partial_size v) \<le> unat (obj_pages obj)"
    using s ole pl by (simp add: min_def split: if_splits)
  have d: "?c dvd unat (partial_offset v)" using o by simp
  have t: "if i915_gem_object_is_tiled obj \<and> tile_row_pages obj \<noteq> 0
         then unat (tile_row_pages obj) dvd ?c \<and> ?c < unat chunk0 + unat (tile_row_pages obj)
         else partial_chunk obj chunk0 = chunk0"
    using cp(2) cp(3) cp(4) by auto
  from v a b c d s cp(1) t show ?thesis by blast
qed

text \<open>
  The scenario of C3: 4096 pages, tile rows of 64 pages, a window of 256 pages and a
  fault at page 300 give view offset 256 and view size \<open>min 256 (4096 - 256) = 256\<close>.
\<close>

theorem C3_partial_view_witness:
  "unat (obj_pages scenario_tiled_obj) < 2^32
   \<and> (300 :: 64 word) < obj_pages scenario_tiled_obj
   \<and> MIN_CHUNK_PAGES \<le> MIN_CHUNK_PAGES
   \<and> unat MIN_CHUNK_PAGES \<le> 2^32 - 2^20
   \<and> tile_row_pages scenario_tiled_obj = 64
   \<and> (\<exists>v. compute_partial_view scenario_tiled_obj 300 MIN_CHUNK_PAGES = Inr v
        \<and> partial_offset v = 256 \<and> partial_size v = 256
        \<and> partial_offset v \<le> 300
        \<and> unat (300 :: 64 word) < unat (partial_offset v) + unat (partial_size v)
        \<and> unat (partial_offset v) + unat (partial_size v) \<le> unat (obj_pages scenario_tiled_obj))"
proof -
  have pg: "obj_pages scenario_tiled_obj = 4096"
    by (simp add: scenario_tiled_obj_def shmem_object_def obj_pages_def PAGE_SHIFT_def
        drop_bit_eq_div)
  have tr: "tile_row_pages scenario_tiled_obj = 64"
    by (simp add: scenario_tiled_obj_def shmem_object_def tile_row_pages_def PAGE_SHIFT_def
        drop_bit_eq_div)
  have m: "MIN_CHUNK_PAGES = 256"
    by (simp add: MIN_CHUNK_PAGES_def PAGE_SHIFT_def drop_bit_eq_div)
  have h1: "unat (obj_pages scenario_tiled_obj) < 2^32" by (simp add: pg)
  have h2: "(300 :: 64 word) < obj_pages scenario_tiled_obj" by (simp add: pg)
  have h3: "MIN_CHUNK_PAGES \<le> MIN_CHUNK_PAGES" by simp
  have h4: "unat MIN_CHUNK_PAGES \<le> 2^32 - 2^20" by (simp add: m)
  from C3_partial_view [OF h1 h2 h3 h4] obtain v where
    v: "compute_partial_view scenario_tiled_obj 300 MIN_CHUNK_PAGES = Inr v"
    and a: "partial_offset v \<le> 300"
    and b: "unat (300 :: 64 word) < unat (partial_offset v) + unat (partial_size v)"
    and c: "unat (partial_offset v) + unat (partial_size v) \<le> unat (obj_pages scenario_tiled_obj)"
    by blast
  have "v = \<lparr> view_type = I915_GGTT_VIEW_PARTIAL, partial_offset = 256, partial_size = 256 \<rparr>"
    using v scenario_view_eval by simp
  then have e: "partial_offset v = 256 \<and> partial_size v = 256"
    by simp
  from h1 h2 h3 h4 tr v a b c e show ?thesis by blast
qed

subsection \<open>The registry of mmap offsets\<close>

lemma mmap_type_val_inj: "mmap_type_val a = mmap_type_val b \<longleftrightarrow> a = b"
  by (cases a; cases b) simp_all

lemma sorted_inorder_Node:
  "sorted_wrt (<) (map (k :: nat \<Rightarrow> nat) (inorder (Node l q r))) \<longleftrightarrow>
     sorted_wrt (<) (map k (inorder l)) \<and> sorted_wrt (<) (map k (inorder r))
     \<and> (\<forall>x \<in> set_tree l. k x < k q) \<and> (\<forall>y \<in> set_tree r. k q < k y)"
proof -
  have "k x < k y" if "\<forall>x \<in> set_tree l. k x < k q" "\<forall>y \<in> set_tree r. k q < k y"
    "x \<in> set_tree l" "y \<in> set_tree r" for x y
    using that less_trans by blast
  then show ?thesis by (auto simp: sorted_wrt_append)
qed

lemma lookup_mmo_loop_Some:
  "lookup_mmo_loop ms t ty = Some q \<Longrightarrow> q \<in> set_tree t \<and> mmap_type (ms q) = ty"
  by (induction t) (auto split: if_splits)

lemma lookup_mmo_loop_None:
  "sorted_wrt (<) (map (mmo_key ms) (inorder t)) \<Longrightarrow> lookup_mmo_loop ms t ty = None
     \<Longrightarrow> q \<in> set_tree t \<Longrightarrow> mmap_type (ms q) \<noteq> ty"
proof (induction t)
  case Leaf
  then show ?case by simp
next
  case (Node l a r)
  from Node.prems(1) have sl: "sorted_wrt (<) (map (mmo_key ms) (inorder l))"
    and sr: "sorted_wrt (<) (map (mmo_key ms) (inorder r))"
    and ll: "\<forall>x \<in> set_tree l. mmo_key ms x < mmo_key ms a"
    and rr: "\<forall>y \<in> set_tree r. mmo_key ms a < mmo_key ms y"
    unfolding sorted_inorder_Node by blast+
  from Node.prems(2) have ne: "mmap_type (ms a) \<noteq> ty" by (auto split: if_splits)
  show ?case
  proof (cases "mmap_type_val (mmap_type (ms a)) < mmap_type_val ty")
    case True
    then have n: "lookup_mmo_loop ms r ty = None" using Node.prems(2) ne by simp
    from Node.prems(3) consider "q = a" | "q \<in> set_tree l" | "q \<in> set_tree r" by auto
    then show ?thesis
    proof cases
      case 1 then show ?thesis using ne by simp
    next
      case 2
      then have "mmo_key ms q < mmap_type_val ty" using ll True by (auto simp: mmo_key_def)
      then show ?thesis by (auto simp: mmo_key_def)
    next
      case 3 then show ?thesis using Node.IH(2) [OF sr n] by simp
    qed
  next
    case False
    then have n: "lookup_mmo_loop ms l ty = None" using Node.prems(2) ne by simp
    have gt: "mmap_type_val ty < mmo_key ms a"
      using False ne by (auto simp: mmo_key_def mmap_type_val_inj not_less le_less)
    from Node.prems(3) consider "q = a" | "q \<in> set_tree l" | "q \<in> set_tree r" by auto
    then show ?thesis
    proof cases
      case 1 then show ?thesis using ne by simp
    next
      case 2 then show ?thesis using Node.IH(1) [OF sl n] by simp
    next
      case 3
      then have "mmap_type_val ty < mmo_key ms q" using rr gt by fastforce
      then show ?thesis by (auto simp: mmo_key_def)
    qed
  qed
qed

lemma sorted_keys_unique:
  assumes "sorted_wrt (<) (map (mmo_key ms) (inorder t))"
    and "p \<in> set_tree t" and "q \<in> set_tree t"
    and "mmap_type (ms p) = mmap_type (ms q)"
  shows "p = q"
proof -
  have "distinct (map (mmo_key ms) (inorder t))"
    using assms(1) strict_sorted_iff by blast
  then have "inj_on (mmo_key ms) (set (inorder t))" by (simp add: distinct_map)
  then show ?thesis using assms(2-4) by (auto simp: inj_on_def mmo_key_def)
qed

lemma lookup_mmo_loop_found:
  assumes "sorted_wrt (<) (map (mmo_key ms) (inorder t))" and "q \<in> set_tree t"
  shows "lookup_mmo_loop ms t (mmap_type (ms q)) = Some q"
proof (cases "lookup_mmo_loop ms t (mmap_type (ms q))")
  case None
  then show ?thesis using lookup_mmo_loop_None [OF assms(1) None assms(2)] by simp
next
  case (Some p)
  then have "p \<in> set_tree t \<and> mmap_type (ms p) = mmap_type (ms q)"
    by (rule lookup_mmo_loop_Some)
  then have "p = q" using sorted_keys_unique [OF assms(1) _ assms(2)] by blast
  then show ?thesis using Some by simp
qed

lemma insert_mmo_loop_Inl:
  "insert_mmo_loop ms t p = Inl q \<Longrightarrow> q \<in> set_tree t \<and> mmap_type (ms q) = mmap_type (ms p)"
  by (induction t) (auto split: if_splits sum.splits)

lemma insert_mmo_loop_Inr:
  "sorted_wrt (<) (map (mmo_key ms) (inorder t)) \<Longrightarrow> insert_mmo_loop ms t p = Inr t'
     \<Longrightarrow> sorted_wrt (<) (map (mmo_key ms) (inorder t'))
         \<and> set_tree t' = insert p (set_tree t)
         \<and> (\<forall>q \<in> set_tree t. mmap_type (ms q) \<noteq> mmap_type (ms p))"
proof (induction t arbitrary: t')
  case Leaf
  then show ?case by auto
next
  case (Node l a r)
  from Node.prems(1) have sl: "sorted_wrt (<) (map (mmo_key ms) (inorder l))"
    and sr: "sorted_wrt (<) (map (mmo_key ms) (inorder r))"
    and ll: "\<forall>x \<in> set_tree l. mmo_key ms x < mmo_key ms a"
    and rr: "\<forall>y \<in> set_tree r. mmo_key ms a < mmo_key ms y"
    unfolding sorted_inorder_Node by blast+
  from Node.prems(2) have ne: "mmap_type (ms a) \<noteq> mmap_type (ms p)" by (auto split: if_splits)
  show ?case
  proof (cases "mmap_type_val (mmap_type (ms a)) < mmap_type_val (mmap_type (ms p))")
    case True
    then obtain r' where r': "insert_mmo_loop ms r p = Inr r'" and t': "t' = Node l a r'"
      using Node.prems(2) ne by (auto split: sum.splits)
    note ih = Node.IH(2) [OF sr r']
    have lt: "mmo_key ms a < mmo_key ms p" using True by (simp add: mmo_key_def)
    have "\<forall>y \<in> set_tree r'. mmo_key ms a < mmo_key ms y" using ih rr lt by auto
    then have s: "sorted_wrt (<) (map (mmo_key ms) (inorder t'))"
      unfolding t' sorted_inorder_Node using sl ih ll by simp
    have "\<forall>x \<in> set_tree l. mmap_type (ms x) \<noteq> mmap_type (ms p)"
      using ll lt by (fastforce simp: mmo_key_def)
    then show ?thesis using s ih ne t' by auto
  next
    case False
    then obtain l' where l': "insert_mmo_loop ms l p = Inr l'" and t': "t' = Node l' a r"
      using Node.prems(2) ne by (auto split: sum.splits)
    note ih = Node.IH(1) [OF sl l']
    have gt: "mmo_key ms p < mmo_key ms a"
      using False ne by (auto simp: mmo_key_def mmap_type_val_inj not_less le_less)
    have "\<forall>x \<in> set_tree l'. mmo_key ms x < mmo_key ms a" using ih ll gt by auto
    then have s: "sorted_wrt (<) (map (mmo_key ms) (inorder t'))"
      unfolding t' sorted_inorder_Node using sr ih rr by simp
    have "\<forall>y \<in> set_tree r. mmap_type (ms y) \<noteq> mmap_type (ms p)"
      using rr gt by (fastforce simp: mmo_key_def)
    then show ?thesis using s ih ne t' by auto
  qed
qed

lemma insert_mmo_loop_dup:
  assumes "sorted_wrt (<) (map (mmo_key ms) (inorder t))"
    and "q \<in> set_tree t" and "mmap_type (ms q) = mmap_type (ms p)"
  shows "insert_mmo_loop ms t p = Inl q"
proof (cases "insert_mmo_loop ms t p")
  case (Inl a)
  then have "a \<in> set_tree t \<and> mmap_type (ms a) = mmap_type (ms p)" by (rule insert_mmo_loop_Inl)
  then have "a = q" using sorted_keys_unique [OF assms(1) _ assms(2)] assms(3) by simp
  then show ?thesis using Inl by simp
next
  case (Inr t')
  then show ?thesis using insert_mmo_loop_Inr [OF assms(1) Inr] assms(2,3) by blast
qed

text \<open>The loops only read the types of the records in the tree and of the new record.\<close>

lemma lookup_mmo_loop_cong:
  "(\<And>q. q \<in> set_tree t \<Longrightarrow> mmap_type (ms' q) = mmap_type (ms q))
     \<Longrightarrow> lookup_mmo_loop ms' t ty = lookup_mmo_loop ms t ty"
  by (induction t) auto

lemma insert_mmo_loop_cong:
  "(\<And>q. q \<in> set_tree t \<Longrightarrow> mmap_type (ms' q) = mmap_type (ms q))
     \<Longrightarrow> mmap_type (ms' p) = mmap_type (ms p)
     \<Longrightarrow> insert_mmo_loop ms' t p = insert_mmo_loop ms t p"
  by (induction t) auto

lemma registry_ok_tree:
  "registry_ok obj s \<Longrightarrow> q \<in> set_tree (mmo_offsets (objs s obj)) \<Longrightarrow> q < next_ptr s"
  by (auto simp: registry_ok_def list_all_iff)

lemma registry_ok_same_tree:
  assumes "registry_ok obj s"
    and "mmo_offsets (objs s' obj) = mmo_offsets (objs s obj)"
    and "next_ptr s \<le> next_ptr s'"
    and "\<forall>q. q < next_ptr s \<longrightarrow> mmap_type (mmos s' q) = mmap_type (mmos s q)"
  shows "registry_ok obj s'"
proof -
  let ?xs = "inorder (mmo_offsets (objs s obj))"
  have lt: "\<forall>q \<in> set ?xs. q < next_ptr s" using assms(1) by (simp add: registry_ok_def list_all_iff)
  then have e: "map (mmo_key (mmos s')) ?xs = map (mmo_key (mmos s)) ?xs"
    using assms(4) by (simp add: mmo_key_def)
  have l': "\<forall>q \<in> set ?xs. q < next_ptr s'" using lt assms(3) by fastforce
  have "sorted_wrt (<) (map (mmo_key (mmos s')) ?xs)"
    using assms(1) unfolding e by (simp add: registry_ok_def)
  then show ?thesis using l' assms(2) by (simp add: registry_ok_def list_all_iff)
qed

lemma attach_new_mmo_reg_step:
  assumes "attach_new_mmo obj ty s = (p, s')"
  shows "reg_step ob s s' {}"
  using assms by (auto simp: attach_new_mmo_def reg_step_def Let_def)

lemma attach_new_mmo_step:
  assumes "attach_new_mmo obj ty s = (p, s')"
  shows "p = next_ptr s" and "next_ptr s' = Suc p"
    and "mmap_type (mmos s' p) = ty" and "objs s' = objs s"
    and "vma_node (mmos s' p) = drm_vma_node_reset"
    and "vma_offset_manager s' = vma_offset_manager s" and "trace s' = trace s"
  using assms by (auto simp: attach_new_mmo_def reg_step_def Let_def)

lemma attach_offset_add_reg_step:
  assumes "attach_offset_add obj p s = (err, s')"
  shows "reg_step ob s s' {}"
  using assms
  by (auto simp: attach_offset_add_def reg_step_def Let_def emit_def upd_mmo_def
      split: prod.splits)

lemma attach_offset_add_step:
  assumes "attach_offset_add obj p s = (err, s')"
  shows "objs s' = objs s" and "next_ptr s' = next_ptr s"
    and "\<forall>q. mmap_type (mmos s' q) = mmap_type (mmos s q)"
  using assms
  by (auto simp: attach_offset_add_def reg_step_def Let_def emit_def upd_mmo_def
      split: prod.splits)

lemma reap_dead_objects_reg_step:
  "reg_step obj s (reap_dead_objects cfg env s) {}"
  by (auto simp: reap_dead_objects_def reg_step_def Let_def emit_def)

lemma reap_dead_objects_step:
  shows "objs (reap_dead_objects cfg env s) = objs s"
    and "mmos (reap_dead_objects cfg env s) = mmos s"
    and "next_ptr (reap_dead_objects cfg env s) = next_ptr s"
  by (auto simp: reap_dead_objects_def reg_step_def Let_def emit_def)

lemma vma_node_allow_once_reg_step:
  assumes "vma_node_allow_once ok m tag s = (err, s')"
  shows "reg_step obj s s' {}"
  using assms
  by (auto simp: vma_node_allow_once_def reg_step_def upd_mmo_def split: if_splits)

lemma vma_node_allow_once_step:
  assumes "vma_node_allow_once ok m tag s = (err, s')"
  shows "objs s' = objs s" and "next_ptr s' = next_ptr s"
    and "\<forall>q. mmap_type (mmos s' q) = mmap_type (mmos s q)"
    and "vma_offset_manager s' = vma_offset_manager s"
  using assms
  by (auto simp: vma_node_allow_once_def reg_step_def upd_mmo_def split: if_splits)

lemma attach_out_reg_step:
  assumes "attach_out env m file s = (r, s')"
  shows "reg_step obj s s' {}"
  using assms
  by (auto simp: attach_out_def reg_step_def vma_node_allow_once_def upd_mmo_def
      split: option.splits prod.splits if_splits)

lemma attach_out_step:
  assumes "attach_out env m file s = (r, s')"
  shows "objs s' = objs s" and "next_ptr s' = next_ptr s"
    and "\<forall>q. mmap_type (mmos s' q) = mmap_type (mmos s q)"
    and "r = Inr m \<or> (\<exists>e. r = Inl e)"
    and "vma_offset_manager s' = vma_offset_manager s" and "trace s' = trace s"
  using assms
  by (auto simp: attach_out_def vma_node_allow_once_def upd_mmo_def
      split: option.splits prod.splits if_splits)

text \<open>The commit: what \<open>insert_mmo\<close> returns and what it leaves behind.\<close>

lemma insert_mmo_lost:
  assumes ok: "registry_ok obj s"
    and m: "m \<in> set_tree (mmo_offsets (objs s obj))"
    and ty: "mmap_type (mmos s m) = mmap_type (mmos s p)"
  shows "fst (insert_mmo bal obj p s) = m"
    and "objs (snd (insert_mmo bal obj p s)) = objs s"
    and "next_ptr (snd (insert_mmo bal obj p s)) = next_ptr s"
    and "\<forall>q. mmap_type (mmos (snd (insert_mmo bal obj p s)) q) = mmap_type (mmos s q)"
    and "\<not> vm_node_allocated (vma_node (mmos (snd (insert_mmo bal obj p s)) p))"
    and "vm_node_allocated (vma_node (mmos s p)) \<longrightarrow>
           (vm_node_start (vma_node (mmos s p)), vm_node_size (vma_node (mmos s p)))
             \<notin> set (mgr_nodes (vma_offset_manager (snd (insert_mmo bal obj p s))))"
    and "trace (snd (insert_mmo bal obj p s)) = trace s @ [EvOffsetRemove p, EvKfree p]"
proof -
  have s: "sorted_wrt (<) (map (mmo_key (mmos s)) (inorder (mmo_offsets (objs s obj))))"
    using ok by (simp add: registry_ok_def)
  have l: "insert_mmo_loop (mmos s) (mmo_offsets (objs s obj)) p = Inl m"
    by (rule insert_mmo_loop_dup [OF s m ty])
  show "fst (insert_mmo bal obj p s) = m"
    using l by (simp add: insert_mmo_def Let_def split: prod.splits)
  show "objs (snd (insert_mmo bal obj p s)) = objs s"
    using l by (simp add: insert_mmo_def Let_def emit_def upd_mmo_def split: prod.splits)
  show "next_ptr (snd (insert_mmo bal obj p s)) = next_ptr s"
    using l by (simp add: insert_mmo_def Let_def emit_def upd_mmo_def split: prod.splits)
  show "\<forall>q. mmap_type (mmos (snd (insert_mmo bal obj p s)) q) = mmap_type (mmos s q)"
    using l by (simp add: insert_mmo_def Let_def emit_def upd_mmo_def split: prod.splits)
  show "\<not> vm_node_allocated (vma_node (mmos (snd (insert_mmo bal obj p s)) p))"
    using l by (auto simp: insert_mmo_def Let_def emit_def upd_mmo_def drm_vma_offset_remove_def
        split: prod.splits if_splits)
  show "vm_node_allocated (vma_node (mmos s p)) \<longrightarrow>
           (vm_node_start (vma_node (mmos s p)), vm_node_size (vma_node (mmos s p)))
             \<notin> set (mgr_nodes (vma_offset_manager (snd (insert_mmo bal obj p s))))"
    using l by (auto simp: insert_mmo_def Let_def emit_def upd_mmo_def drm_vma_offset_remove_def
        split: prod.splits if_splits)
  show "trace (snd (insert_mmo bal obj p s)) = trace s @ [EvOffsetRemove p, EvKfree p]"
    using l by (simp add: insert_mmo_def Let_def emit_def upd_mmo_def split: prod.splits)
qed

lemma insert_mmo_won:
  assumes bal: "\<And>t. inorder (bal t) = inorder t"
    and ok: "registry_ok obj s"
    and none: "\<forall>q \<in> set_tree (mmo_offsets (objs s obj)). mmap_type (mmos s q) \<noteq> mmap_type (mmos s p)"
    and p: "p < next_ptr s"
  shows "fst (insert_mmo bal obj p s) = p"
    and "set_tree (mmo_offsets (objs (snd (insert_mmo bal obj p s)) obj))
           = insert p (set_tree (mmo_offsets (objs s obj)))"
    and "mmos (snd (insert_mmo bal obj p s)) = mmos s"
    and "next_ptr (snd (insert_mmo bal obj p s)) = next_ptr s"
    and "registry_ok obj (snd (insert_mmo bal obj p s))"
    and "vma_offset_manager (snd (insert_mmo bal obj p s)) = vma_offset_manager s"
    and "trace (snd (insert_mmo bal obj p s)) = trace s"
    and "ops_mmap_offset (objs (snd (insert_mmo bal obj p s)) obj) = ops_mmap_offset (objs s obj)"
    and "ops_mmap_ops (objs (snd (insert_mmo bal obj p s)) obj) = ops_mmap_ops (objs s obj)"
proof -
  let ?t = "mmo_offsets (objs s obj)"
  have s: "sorted_wrt (<) (map (mmo_key (mmos s)) (inorder ?t))"
    using ok by (simp add: registry_ok_def)
  obtain t' where l: "insert_mmo_loop (mmos s) ?t p = Inr t'"
    using none insert_mmo_loop_Inl [of "mmos s" ?t p] by (cases "insert_mmo_loop (mmos s) ?t p") auto
  note r = insert_mmo_loop_Inr [OF s l]
  have st: "set_tree (bal t') = set_tree t'"
    using bal [of t'] by (metis set_inorder)
  show "fst (insert_mmo bal obj p s) = p"
    using l by (simp add: insert_mmo_def)
  show "set_tree (mmo_offsets (objs (snd (insert_mmo bal obj p s)) obj))
           = insert p (set_tree ?t)"
    using l r st by (simp add: insert_mmo_def upd_obj_def)
  show "mmos (snd (insert_mmo bal obj p s)) = mmos s"
    using l by (simp add: insert_mmo_def upd_obj_def)
  show "next_ptr (snd (insert_mmo bal obj p s)) = next_ptr s"
    using l by (simp add: insert_mmo_def upd_obj_def)
  have "\<forall>q \<in> set (inorder t'). q < next_ptr s"
    using r p registry_ok_tree [OF ok] by auto
  then show "registry_ok obj (snd (insert_mmo bal obj p s))"
    using l r bal by (simp add: insert_mmo_def upd_obj_def registry_ok_def list_all_iff)
  show "vma_offset_manager (snd (insert_mmo bal obj p s)) = vma_offset_manager s"
    using l by (simp add: insert_mmo_def upd_obj_def)
  show "trace (snd (insert_mmo bal obj p s)) = trace s"
    using l by (simp add: insert_mmo_def upd_obj_def)
  show "ops_mmap_offset (objs (snd (insert_mmo bal obj p s)) obj) = ops_mmap_offset (objs s obj)"
    using l by (simp add: insert_mmo_def upd_obj_def)
  show "ops_mmap_ops (objs (snd (insert_mmo bal obj p s)) obj) = ops_mmap_ops (objs s obj)"
    using l by (simp add: insert_mmo_def upd_obj_def)
qed

lemma insert_mmo_step:
  assumes bal: "\<And>t. inorder (bal t) = inorder t"
    and ok: "registry_ok obj s" and p: "p < next_ptr s"
    and r: "insert_mmo bal obj p s = (m, s')"
  shows "registry_ok obj s'"
    and "reg_step obj s s' (if m = p then {p} else {})"
    and "m \<in> set_tree (mmo_offsets (objs s' obj))"
    and "mmap_type (mmos s' m) = mmap_type (mmos s p)"
proof -
  let ?t = "mmo_offsets (objs s obj)"
  have "registry_ok obj s' \<and> reg_step obj s s' (if m = p then {p} else {})
        \<and> m \<in> set_tree (mmo_offsets (objs s' obj))
        \<and> mmap_type (mmos s' m) = mmap_type (mmos s p)"
  proof (cases "\<exists>q \<in> set_tree ?t. mmap_type (mmos s q) = mmap_type (mmos s p)")
    case True
    then obtain q where q: "q \<in> set_tree ?t" "mmap_type (mmos s q) = mmap_type (mmos s p)"
      by blast
    note L = insert_mmo_lost [OF ok q, of bal]
    have mq: "m = q" using L(1) r by simp
    have s': "s' = snd (insert_mmo bal obj p s)" using r by simp
    have ok': "registry_ok obj s'"
      using registry_ok_same_tree [OF ok, of s'] L(2,3,4) s' by simp
    have "reg_step obj s s' {}"
      using L(2,3,4) s' by (simp add: reg_step_def)
    moreover have "p \<in> set_tree ?t" if "m = p" using that mq q by simp
    ultimately have rs: "reg_step obj s s' (if m = p then {p} else {})"
      by (auto simp: reg_step_def)
    show ?thesis using ok' rs mq q L(2,4) s' by simp
  next
    case False
    then have none: "\<forall>q \<in> set_tree ?t. mmap_type (mmos s q) \<noteq> mmap_type (mmos s p)" by blast
    note W = insert_mmo_won [OF bal ok none p]
    have mp: "m = p" using W(1) r by simp
    have s': "s' = snd (insert_mmo bal obj p s)" using r by simp
    show ?thesis using W mp s' by (simp add: reg_step_def)
  qed
  then show "registry_ok obj s'"
    and "reg_step obj s s' (if m = p then {p} else {})"
    and "m \<in> set_tree (mmo_offsets (objs s' obj))"
    and "mmap_type (mmos s' m) = mmap_type (mmos s p)"
    by blast+
qed

lemma reg_step_refl: "reg_step obj s s {}"
  by (simp add: reg_step_def)

lemma reg_step_trans:
  "reg_step obj s s1 {} \<Longrightarrow> reg_step obj s1 s2 added \<Longrightarrow> reg_step obj s s2 added"
  by (auto simp: reg_step_def)

lemma reg_step_registry_ok:
  assumes "registry_ok obj s" and "reg_step obj s s' {}"
    and "mmo_offsets (objs s' obj) = mmo_offsets (objs s obj)"
  shows "registry_ok obj s'"
  using registry_ok_same_tree [OF assms(1) assms(3)] assms(2) by (simp add: reg_step_def)

lemma pc_ok_stable:
  assumes ok: "registry_ok obj s" and st: "reg_step obj s s' added"
    and pc: "pc_ok obj ty s pc" and dis: "pending_of pc \<inter> added = {}"
  shows "pc_ok obj ty s' pc"
proof -
  have v: "visible obj ty s' m" if "visible obj ty s m" for m
  proof -
    have "m < next_ptr s" using that registry_ok_tree [OF ok] by (simp add: visible_def)
    then show ?thesis using that st by (auto simp: visible_def reg_step_def)
  qed
  have p: "pending obj ty s' q" if "pending obj ty s q" "q \<notin> added" for q
    using that st by (auto simp: pending_def reg_step_def)
  show ?thesis
  proof (cases pc)
    case (AtDone r)
    show ?thesis
    proof (cases r)
      case (Inl a)
      then show ?thesis using pc AtDone by simp
    next
      case (Inr x)
      then show ?thesis using pc AtDone v by (cases x) auto
    qed
  qed (use pc v p dis in auto)
qed

lemma attach_step_inv:
  assumes bal: "\<And>t. inorder (bal t) = inorder t"
    and ok: "registry_ok obj s"
    and fl: "\<not> ops_mmap_offset (objs s obj)" "\<not> ops_mmap_ops (objs s obj)"
    and pc: "pc_ok obj ty s pc"
    and step: "attach_step bal cfg env obj ty file pc s = (pc', s')"
  shows "registry_ok obj s' \<and> pc_ok obj ty s' pc'
         \<and> (\<exists>added. reg_step obj s s' added \<and> added \<subseteq> pending_of pc)
         \<and> pending_of pc' \<subseteq> pending_of pc \<union> {next_ptr s}"
proof (cases pc)
  case AtLookup
  show ?thesis
  proof (cases "lookup_mmo obj ty s")
    case None
    then show ?thesis using step AtLookup fl ok reg_step_refl [of obj s]
      by (auto simp: attach_step_def)
  next
    case (Some m)
    then have "visible obj ty s m"
      using lookup_mmo_loop_Some [of "mmos s" "mmo_offsets (objs s obj)" ty m]
      by (simp add: lookup_mmo_def visible_def)
    then show ?thesis using step AtLookup fl ok Some reg_step_refl [of obj s]
      by (auto simp: attach_step_def)
  qed
next
  case AtAlloc
  show ?thesis
  proof (cases "kmalloc_mmo_ok env")
    case False
    then show ?thesis using step AtAlloc ok reg_step_refl [of obj s]
      by (auto simp: attach_step_def)
  next
    case True
    obtain p s1 where n: "attach_new_mmo obj ty s = (p, s1)" by (cases "attach_new_mmo obj ty s")
    obtain err s2 where a: "attach_offset_add obj p s1 = (err, s2)"
      by (cases "attach_offset_add obj p s1")
    note N1 = attach_new_mmo_reg_step [OF n, where ob=obj]
    note A1 = attach_offset_add_reg_step [OF a, where ob=obj]
    note N = attach_new_mmo_step [OF n]
    note A = attach_offset_add_step [OF a]
    have r: "reg_step obj s s2 {}" by (rule reg_step_trans [OF N1 A1])
    have same: "mmo_offsets (objs s2 obj) = mmo_offsets (objs s obj)" using N(4) A(1) by simp
    have ok2: "registry_ok obj s2" by (rule reg_step_registry_ok [OF ok r same])
    have "p \<notin> set_tree (mmo_offsets (objs s obj))"
      using registry_ok_tree [OF ok, of p] N(1) by auto
    then have pe: "pending obj ty s2 p"
      using N A same by (simp add: pending_def)
    have pcs: "pc' = (if err = 0 then AtInsert p else AtReap p)" and s': "s' = s2"
      using step AtAlloc True n a by (auto simp: attach_step_def split: if_splits)
    show ?thesis using ok2 pe pcs s' r N(1) by auto
  qed
next
  case (AtReap p)
  have s': "s' = reap_dead_objects cfg env s" and pc': "pc' = AtRetry p"
    using step AtReap by (auto simp: attach_step_def)
  note R1 = reap_dead_objects_reg_step [where obj=obj and s=s and cfg=cfg and env=env]
  note R = reap_dead_objects_step [where s=s and cfg=cfg and env=env]
  have ok': "registry_ok obj s'"
    using reg_step_registry_ok [OF ok R1] R(1) s' by simp
  have "pc_ok obj ty s' pc"
    using pc_ok_stable [OF ok R1 pc] s' by simp
  then show ?thesis using ok' R1 s' pc' AtReap by auto
next
  case (AtRetry p)
  obtain err s4 where a: "attach_offset_add obj p s = (err, s4)"
    by (cases "attach_offset_add obj p s")
  note A1 = attach_offset_add_reg_step [OF a, where ob=obj]
  note A = attach_offset_add_step [OF a]
  have ok4: "registry_ok obj s4" using reg_step_registry_ok [OF ok A1] A(1) by simp
  have pc4: "pc_ok obj ty s4 pc" using pc_ok_stable [OF ok A1 pc] by simp
  show ?thesis
  proof (cases "err = 0")
    case True
    then have "pc' = AtInsert p" "s' = s4" using step AtRetry a by (auto simp: attach_step_def)
    then show ?thesis using ok4 pc4 A1 AtRetry by auto
  next
    case False
    then have pc': "pc' = AtDone (Inr (Inl err))" and s': "s' = emit (EvKfree p) s4"
      using step AtRetry a by (auto simp: attach_step_def)
    have e: "reg_step obj s4 s' {}" using s' by (simp add: reg_step_def emit_def)
    have "registry_ok obj s'"
      using reg_step_registry_ok [OF ok4 e] s' by (simp add: emit_def)
    then show ?thesis using pc' reg_step_trans [OF A1 e] by auto
  qed
next
  case (AtInsert p)
  obtain m s1 where i: "insert_mmo bal obj p s = (m, s1)" by (cases "insert_mmo bal obj p s")
  have pp: "pending obj ty s p" using pc AtInsert by simp
  then have plt: "p < next_ptr s" by (simp add: pending_def)
  note I = insert_mmo_step [OF bal ok plt i]
  have pc': "pc' = AtCheck m" and s': "s' = s1"
    using step AtInsert i by (auto simp: attach_step_def)
  have v: "visible obj ty s1 m" using I(3,4) pp by (simp add: visible_def pending_def)
  have "(if m = p then {p} else {}) \<subseteq> {p}" by simp
  then have "\<exists>added. reg_step obj s s1 added \<and> added \<subseteq> {p}" using I(2) by blast
  then show ?thesis using v I(1) pc' s' AtInsert by simp
next
  case (AtCheck m)
  have v: "visible obj ty s m" using pc AtCheck by simp
  have "lookup_mmo obj ty s = Some m"
    using lookup_mmo_loop_found [of "mmos s" "mmo_offsets (objs s obj)" m] v ok
    by (simp add: lookup_mmo_def visible_def registry_ok_def)
  then have "pc' = AtOut m" "s' = s" using step AtCheck by (auto simp: attach_step_def)
  then show ?thesis using ok v reg_step_refl [of obj s] by auto
next
  case (AtOut m)
  obtain r s1 where o: "attach_out env m file s = (r, s1)" by (cases "attach_out env m file s")
  note O1 = attach_out_reg_step [OF o, where obj=obj]
  note O = attach_out_step [OF o]
  have pc': "pc' = AtDone (Inr r)" and s': "s' = s1"
    using step AtOut o by (auto simp: attach_step_def)
  have ok1: "registry_ok obj s1" using reg_step_registry_ok [OF ok O1] O(1) by simp
  have "pc_ok obj ty s1 pc" using pc_ok_stable [OF ok O1 pc] by simp
  then have "pc_ok obj ty s1 (AtDone (Inr r))" using O(4) AtOut by auto
  then show ?thesis using ok1 pc' s' O1 by auto
next
  case (AtDone r)
  then have "pc' = pc" "s' = s" using step by (auto simp: attach_step_def)
  then show ?thesis using ok pc reg_step_refl [of obj s] AtDone by auto
qed

lemma pc_ok_pending_lt:
  "pc_ok obj ty s pc \<Longrightarrow> q \<in> pending_of pc \<Longrightarrow> q < next_ptr s"
  by (cases pc) (auto simp: pending_def)

lemma race_inv_step1:
  assumes bal: "\<And>t. inorder (bal t) = inorder t"
    and inv: "race_inv obj ty (pc1, pc2, s)"
    and step: "attach_step bal cfg env obj ty file pc1 s = (pc1', s')"
  shows "race_inv obj ty (pc1', pc2, s')"
proof -
  from inv have ok: "registry_ok obj s"
    and fl: "\<not> ops_mmap_offset (objs s obj)" "\<not> ops_mmap_ops (objs s obj)"
    and p1: "pc_ok obj ty s pc1" and p2: "pc_ok obj ty s pc2"
    and dis: "pending_of pc1 \<inter> pending_of pc2 = {}" by simp_all
  from attach_step_inv [OF bal ok fl p1 step] obtain added where
    ok': "registry_ok obj s'" and p1': "pc_ok obj ty s' pc1'"
    and rs: "reg_step obj s s' added" and sub: "added \<subseteq> pending_of pc1"
    and new: "pending_of pc1' \<subseteq> pending_of pc1 \<union> {next_ptr s}" by blast
  have "pending_of pc2 \<inter> added = {}" using dis sub by blast
  then have p2': "pc_ok obj ty s' pc2" by (rule pc_ok_stable [OF ok rs p2])
  have "next_ptr s \<notin> pending_of pc2" using pc_ok_pending_lt [OF p2] by blast
  then have dis': "pending_of pc1' \<inter> pending_of pc2 = {}" using new dis by blast
  have fl': "\<not> ops_mmap_offset (objs s' obj)" "\<not> ops_mmap_ops (objs s' obj)"
    using rs fl by (simp_all add: reg_step_def)
  show ?thesis using ok' fl' p1' p2' dis' by simp
qed

lemma race_inv_swap: "race_inv obj ty (pc1, pc2, s) = race_inv obj ty (pc2, pc1, s)"
  by auto

lemma race_inv_run:
  assumes bal: "\<And>t. inorder (bal t) = inorder t"
  shows "race_inv obj ty st \<Longrightarrow> race_inv obj ty (attach_race bal cfg obj ty c1 c2 sched st)"
proof (induction sched arbitrary: st)
  case Nil
  then show ?case by simp
next
  case (Cons b bs)
  obtain pc1 pc2 s where st: "st = (pc1, pc2, s)" by (cases st)
  show ?case
  proof (cases b)
    case True
    obtain pc1' s' where e: "attach_step bal cfg (fst c1) obj ty (snd c1) pc1 s = (pc1', s')"
      by (cases "attach_step bal cfg (fst c1) obj ty (snd c1) pc1 s")
    have "race_inv obj ty (pc1, pc2, s)" using Cons.prems st by simp
    then have "race_inv obj ty (pc1', pc2, s')" by (rule race_inv_step1 [OF bal _ e])
    then have "race_inv obj ty (attach_race bal cfg obj ty c1 c2 bs (pc1', pc2, s'))"
      by (rule Cons.IH)
    then show ?thesis using True e st by simp
  next
    case False
    obtain pc2' s' where e: "attach_step bal cfg (fst c2) obj ty (snd c2) pc2 s = (pc2', s')"
      by (cases "attach_step bal cfg (fst c2) obj ty (snd c2) pc2 s")
    have "race_inv obj ty (pc1, pc2, s)" using Cons.prems st by simp
    then have "race_inv obj ty (pc2, pc1, s)" by (simp only: race_inv_swap)
    then have "race_inv obj ty (pc2', pc1, s')" by (rule race_inv_step1 [OF bal _ e])
    then have "race_inv obj ty (pc1, pc2', s')" by (simp only: race_inv_swap)
    then have "race_inv obj ty (attach_race bal cfg obj ty c1 c2 bs (pc1, pc2', s'))"
      by (rule Cons.IH)
    then show ?thesis using False e st by simp
  qed
qed

lemma sorted_filter_type:
  "sorted_wrt (<) (map (mmo_key ms) xs)
     \<Longrightarrow> length (filter (\<lambda>q. mmap_type (ms q) = K) xs) \<le> 1"
proof (induction xs)
  case Nil
  then show ?case by simp
next
  case (Cons x xs)
  show ?case
  proof (cases "mmap_type (ms x) = K")
    case True
    have "\<forall>y \<in> set xs. mmo_key ms x < mmo_key ms y" using Cons.prems by simp
    then have "\<forall>y \<in> set xs. mmap_type (ms y) \<noteq> K" using True by (fastforce simp: mmo_key_def)
    then have "filter (\<lambda>q. mmap_type (ms q) = K) xs = []" by (simp add: filter_empty_conv)
    then show ?thesis using True by simp
  next
    case False
    then show ?thesis using Cons by simp
  qed
qed

lemma records_of_type_le_1: "registry_ok obj s \<Longrightarrow> length (records_of_type obj K s) \<le> 1"
  unfolding registry_ok_def records_of_type_def by (rule sorted_filter_type) simp

lemma records_of_type_visible:
  assumes "registry_ok obj s" and "visible obj ty s m"
  shows "records_of_type obj ty s = [m]"
proof -
  have "m \<in> set (records_of_type obj ty s)"
    using assms(2) by (simp add: records_of_type_def visible_def)
  moreover have "length (records_of_type obj ty s) \<le> 1"
    by (rule records_of_type_le_1 [OF assms(1)])
  ultimately show ?thesis
    by (cases "records_of_type obj ty s") auto
qed

lemmas attach_defs = attach_step_def attach_new_mmo_def attach_offset_add_def attach_out_def
  insert_mmo_def lookup_mmo_def vma_node_allow_once_def reap_dead_objects_def
  drm_vma_offset_add_def drm_vma_offset_remove_def drm_mm_insert_node_def mgr_fits_def
  drm_vma_node_reset_def emit_def upd_mmo_def upd_obj_def

lemmas fixture_defs = idle_state_def small_obj_def shmem_object_def idle_vma_def idle_region_def
  test_config_def good_attach_env_def race_schedule_def

lemma race_eval:
  "(case attach_race (\<lambda>t. t) test_config 7 I915_MMAP_TYPE_WB
           (good_attach_env, Some 100) (good_attach_env, Some 200)
           race_schedule (AtLookup, AtLookup, idle_state) of
      (pc1, pc2, s') \<Rightarrow>
        pc1 = AtDone (Inr (Inr 0)) \<and> pc2 = AtDone (Inr (Inr 0))
        \<and> mmo_offsets (objs s' 7) = Node Leaf 0 Leaf
        \<and> trace s' = [EvOffsetAdd 0 0, EvOffsetAdd 1 0, EvOffsetRemove 1, EvKfree 1]
        \<and> mgr_nodes (vma_offset_manager s') = [(0x100000, 16)]
        \<and> vm_files (vma_node (mmos s' 0)) = [200, 100]
        \<and> \<not> vm_node_allocated (vma_node (mmos s' 1)))"
  by (simp add: attach_defs fixture_defs Let_def errno_defs)

text \<open>
  C1. Let the registry of an object satisfy its invariant, and let two callers attach
  the same mmap type to it, each with its own allocation outcomes and file, their
  critical sections interleaved by an arbitrary schedule (successive calls are the
  schedules that run one caller to its end first). Then in every state the race reaches,
  the registry holds at most one record of each type, no caller trips an assertion, and
  when both callers have returned a record it is the same record, the only one of the
  requested type, so both read the same offset from it. A caller that commits a record
  while one of the same type is visible (the second committer) is given the visible
  record: the tree is unchanged, the range of its own node is returned to the offset
  manager, and its record is freed. A caller that commits when none is visible (the
  winner) gets its own record, which is then the only one of its type.
\<close>

theorem C1_one_record_per_kind:
  assumes bal: "\<forall>t. inorder (bal t) = inorder t"
    and ok: "registry_ok obj s"
    and fl: "\<not> ops_mmap_offset (objs s obj)" "\<not> ops_mmap_ops (objs s obj)"
  shows
    "(\<forall>sched. case attach_race bal cfg obj ty c1 c2 sched (AtLookup, AtLookup, s) of
        (pc1, pc2, s') \<Rightarrow>
          registry_ok obj s'
          \<and> (\<forall>K. length (records_of_type obj K s') \<le> 1)
          \<and> (\<forall>trap. pc1 \<noteq> AtDone (Inl trap) \<and> pc2 \<noteq> AtDone (Inl trap))
          \<and> (\<forall>m1 m2. pc1 = AtDone (Inr (Inr m1)) \<and> pc2 = AtDone (Inr (Inr m2)) \<longrightarrow>
                m1 = m2 \<and> records_of_type obj ty s' = [m1]
                \<and> drm_vma_node_offset_addr (vma_node (mmos s' m1))
                    = drm_vma_node_offset_addr (vma_node (mmos s' m2))))
     \<and> (\<forall>p m. pending obj ty s p \<and> visible obj ty s m \<longrightarrow>
          (case insert_mmo bal obj p s of
             (r, s') \<Rightarrow>
               r = m
               \<and> mmo_offsets (objs s' obj) = mmo_offsets (objs s obj)
               \<and> \<not> vm_node_allocated (vma_node (mmos s' p))
               \<and> (vm_node_allocated (vma_node (mmos s p)) \<longrightarrow>
                     (vm_node_start (vma_node (mmos s p)), vm_node_size (vma_node (mmos s p)))
                       \<notin> set (mgr_nodes (vma_offset_manager s')))
               \<and> trace s' = trace s @ [EvOffsetRemove p, EvKfree p]))
     \<and> (\<forall>p. pending obj ty s p \<and> records_of_type obj ty s = [] \<longrightarrow>
          (case insert_mmo bal obj p s of
             (r, s') \<Rightarrow> r = p \<and> records_of_type obj ty s' = [p] \<and> registry_ok obj s'))"
proof -
  have bal': "\<And>t. inorder (bal t) = inorder t" using bal by simp
  have race: "case attach_race bal cfg obj ty c1 c2 sched (AtLookup, AtLookup, s) of
        (pc1, pc2, s') \<Rightarrow>
          registry_ok obj s'
          \<and> (\<forall>K. length (records_of_type obj K s') \<le> 1)
          \<and> (\<forall>trap. pc1 \<noteq> AtDone (Inl trap) \<and> pc2 \<noteq> AtDone (Inl trap))
          \<and> (\<forall>m1 m2. pc1 = AtDone (Inr (Inr m1)) \<and> pc2 = AtDone (Inr (Inr m2)) \<longrightarrow>
                m1 = m2 \<and> records_of_type obj ty s' = [m1]
                \<and> drm_vma_node_offset_addr (vma_node (mmos s' m1))
                    = drm_vma_node_offset_addr (vma_node (mmos s' m2)))" for sched
  proof -
    obtain pc1 pc2 s' where e:
      "attach_race bal cfg obj ty c1 c2 sched (AtLookup, AtLookup, s) = (pc1, pc2, s')"
      by (cases "attach_race bal cfg obj ty c1 c2 sched (AtLookup, AtLookup, s)")
    have "race_inv obj ty (AtLookup, AtLookup, s)" using ok fl by simp
    then have "race_inv obj ty (attach_race bal cfg obj ty c1 c2 sched (AtLookup, AtLookup, s))"
      by (rule race_inv_run [OF bal'])
    then have inv: "race_inv obj ty (pc1, pc2, s')" using e by simp
    then have ok': "registry_ok obj s'" and p1: "pc_ok obj ty s' pc1" and p2: "pc_ok obj ty s' pc2"
      by simp_all
    have a: "\<forall>K. length (records_of_type obj K s') \<le> 1"
      using records_of_type_le_1 [OF ok'] by simp
    have b: "\<forall>trap. pc1 \<noteq> AtDone (Inl trap) \<and> pc2 \<noteq> AtDone (Inl trap)"
      using p1 p2 by auto
    have c: "\<forall>m1 m2. pc1 = AtDone (Inr (Inr m1)) \<and> pc2 = AtDone (Inr (Inr m2)) \<longrightarrow>
                m1 = m2 \<and> records_of_type obj ty s' = [m1]
                \<and> drm_vma_node_offset_addr (vma_node (mmos s' m1))
                    = drm_vma_node_offset_addr (vma_node (mmos s' m2))"
    proof (intro allI impI)
      fix m1 m2 assume that: "pc1 = AtDone (Inr (Inr m1)) \<and> pc2 = AtDone (Inr (Inr m2))"
      have v1: "visible obj ty s' m1" and v2: "visible obj ty s' m2" using that p1 p2 by simp_all
      have r1: "records_of_type obj ty s' = [m1]" by (rule records_of_type_visible [OF ok' v1])
      have r2: "records_of_type obj ty s' = [m2]" by (rule records_of_type_visible [OF ok' v2])
      from r1 r2 show "m1 = m2 \<and> records_of_type obj ty s' = [m1]
                \<and> drm_vma_node_offset_addr (vma_node (mmos s' m1))
                    = drm_vma_node_offset_addr (vma_node (mmos s' m2))" by simp
    qed
    show ?thesis unfolding e prod.case by (intro conjI) (rule ok' a b c)+
  qed
  have lost: "case insert_mmo bal obj p s of
             (r, s') \<Rightarrow>
               r = m
               \<and> mmo_offsets (objs s' obj) = mmo_offsets (objs s obj)
               \<and> \<not> vm_node_allocated (vma_node (mmos s' p))
               \<and> (vm_node_allocated (vma_node (mmos s p)) \<longrightarrow>
                     (vm_node_start (vma_node (mmos s p)), vm_node_size (vma_node (mmos s p)))
                       \<notin> set (mgr_nodes (vma_offset_manager s')))
               \<and> trace s' = trace s @ [EvOffsetRemove p, EvKfree p]"
    if "pending obj ty s p \<and> visible obj ty s m" for p m
  proof -
    have m: "m \<in> set_tree (mmo_offsets (objs s obj))"
      and t: "mmap_type (mmos s m) = mmap_type (mmos s p)"
      using that by (simp_all add: pending_def visible_def)
    note L = insert_mmo_lost [OF ok m t, of bal]
    show ?thesis using L by (simp add: case_prod_beta)
  qed
  have won: "case insert_mmo bal obj p s of
             (r, s') \<Rightarrow> r = p \<and> records_of_type obj ty s' = [p] \<and> registry_ok obj s'"
    if "pending obj ty s p \<and> records_of_type obj ty s = []" for p
  proof -
    have none: "\<forall>q \<in> set_tree (mmo_offsets (objs s obj)). mmap_type (mmos s q) \<noteq> mmap_type (mmos s p)"
      using that by (auto simp: pending_def records_of_type_def filter_empty_conv)
    have plt: "p < next_ptr s" using that by (simp add: pending_def)
    note W = insert_mmo_won [OF bal' ok none plt]
    have "visible obj ty (snd (insert_mmo bal obj p s)) p"
      using W(2,3) that by (simp add: visible_def pending_def)
    then have "records_of_type obj ty (snd (insert_mmo bal obj p s)) = [p]"
      by (rule records_of_type_visible [OF W(5)])
    then show ?thesis using W(1,5) by (simp add: case_prod_beta)
  qed
  show ?thesis
  proof (intro conjI allI impI)
    fix sched
    show "case attach_race bal cfg obj ty c1 c2 sched (AtLookup, AtLookup, s) of
        (pc1, pc2, s') \<Rightarrow>
          registry_ok obj s'
          \<and> (\<forall>K. length (records_of_type obj K s') \<le> 1)
          \<and> (\<forall>trap. pc1 \<noteq> AtDone (Inl trap) \<and> pc2 \<noteq> AtDone (Inl trap))
          \<and> (\<forall>m1 m2. pc1 = AtDone (Inr (Inr m1)) \<and> pc2 = AtDone (Inr (Inr m2)) \<longrightarrow>
                m1 = m2 \<and> records_of_type obj ty s' = [m1]
                \<and> drm_vma_node_offset_addr (vma_node (mmos s' m1))
                    = drm_vma_node_offset_addr (vma_node (mmos s' m2)))"
      by (rule race)
  next
    fix p m assume "pending obj ty s p \<and> visible obj ty s m"
    then show "case insert_mmo bal obj p s of
             (r, s') \<Rightarrow>
               r = m
               \<and> mmo_offsets (objs s' obj) = mmo_offsets (objs s obj)
               \<and> \<not> vm_node_allocated (vma_node (mmos s' p))
               \<and> (vm_node_allocated (vma_node (mmos s p)) \<longrightarrow>
                     (vm_node_start (vma_node (mmos s p)), vm_node_size (vma_node (mmos s p)))
                       \<notin> set (mgr_nodes (vma_offset_manager s')))
               \<and> trace s' = trace s @ [EvOffsetRemove p, EvKfree p]"
      by (rule lost)
  next
    fix p assume "pending obj ty s p \<and> records_of_type obj ty s = []"
    then show "case insert_mmo bal obj p s of
             (r, s') \<Rightarrow> r = p \<and> records_of_type obj ty s' = [p] \<and> registry_ok obj s'"
      by (rule won)
  qed
qed

text \<open>
  The race on the idle device: both callers find no record and allocate, the first
  commits record 0, the second commits record 1 and loses; both return record 0, the
  second caller's range is removed and its record freed, one node stays allocated.
\<close>

theorem C1_one_record_per_kind_witness:
  "(\<forall>t. inorder ((\<lambda>t. t) t) = inorder (t :: nat tree))
   \<and> registry_ok 7 idle_state
   \<and> \<not> ops_mmap_offset (objs idle_state 7) \<and> \<not> ops_mmap_ops (objs idle_state 7)
   \<and> (case attach_race (\<lambda>t. t) test_config 7 I915_MMAP_TYPE_WB
              (good_attach_env, Some 100) (good_attach_env, Some 200)
              race_schedule (AtLookup, AtLookup, idle_state) of
         (pc1, pc2, s') \<Rightarrow>
           pc1 = AtDone (Inr (Inr 0)) \<and> pc2 = AtDone (Inr (Inr 0))
           \<and> records_of_type 7 I915_MMAP_TYPE_WB s' = [0]
           \<and> length (records_of_type 7 I915_MMAP_TYPE_GTT s') \<le> 1
           \<and> trace s' = [EvOffsetAdd 0 0, EvOffsetAdd 1 0, EvOffsetRemove 1, EvKfree 1]
           \<and> mgr_nodes (vma_offset_manager s') = [(0x100000, 16)])"
proof -
  have h1: "\<forall>t. inorder ((\<lambda>t. t) t) = inorder (t :: nat tree)" by simp
  have h2: "registry_ok 7 idle_state"
    by (simp add: registry_ok_def fixture_defs)
  have h3: "\<not> ops_mmap_offset (objs idle_state 7)" by (simp add: fixture_defs)
  have h4: "\<not> ops_mmap_ops (objs idle_state 7)" by (simp add: fixture_defs)
  obtain pc1 pc2 s' where e:
    "attach_race (\<lambda>t. t) test_config 7 I915_MMAP_TYPE_WB
       (good_attach_env, Some 100) (good_attach_env, Some 200)
       race_schedule (AtLookup, AtLookup, idle_state) = (pc1, pc2, s')"
    by (cases "attach_race (\<lambda>t. t) test_config 7 I915_MMAP_TYPE_WB
       (good_attach_env, Some 100) (good_attach_env, Some 200)
       race_schedule (AtLookup, AtLookup, idle_state)")
  have ev: "pc1 = AtDone (Inr (Inr 0)) \<and> pc2 = AtDone (Inr (Inr 0))
        \<and> trace s' = [EvOffsetAdd 0 0, EvOffsetAdd 1 0, EvOffsetRemove 1, EvKfree 1]
        \<and> mgr_nodes (vma_offset_manager s') = [(0x100000, 16)]"
    using race_eval e by simp
  note T = C1_one_record_per_kind [OF h1 h2 h3 h4, where cfg=test_config and ty=I915_MMAP_TYPE_WB
      and ?c1.0="(good_attach_env, Some 100)" and ?c2.0="(good_attach_env, Some 200)"]
  note R = T [THEN conjunct1, THEN spec [where x=race_schedule]]
  note R' = R [unfolded e prod.case]
  have k: "length (records_of_type 7 I915_MMAP_TYPE_GTT s') \<le> 1"
    using R' [THEN conjunct2, THEN conjunct1] by (rule spec)
  have "pc1 = AtDone (Inr (Inr 0)) \<and> pc2 = AtDone (Inr (Inr 0)) \<longrightarrow>
          (0::nat) = 0 \<and> records_of_type 7 I915_MMAP_TYPE_WB s' = [0]
          \<and> drm_vma_node_offset_addr (vma_node (mmos s' 0))
              = drm_vma_node_offset_addr (vma_node (mmos s' 0))"
    using R' [THEN conjunct2, THEN conjunct2, THEN conjunct2, THEN spec, THEN spec] .
  then have r: "records_of_type 7 I915_MMAP_TYPE_WB s' = [0]" using ev by simp
  show ?thesis unfolding e prod.case using h1 h2 h3 h4 ev r k by simp
qed

subsection \<open>Allocation of the offset: reclaim and retry\<close>

text \<open>The manager after the dead objects' nodes are released.\<close>

lemma reap_dead_objects_mgr:
  "vma_offset_manager (reap_dead_objects cfg env s)
     = (vma_offset_manager s)
         \<lparr> mgr_nodes := filter (\<lambda>n. n \<notin> set (reaped_nodes env)) (mgr_nodes (vma_offset_manager s)) \<rparr>"
  and "trace (reap_dead_objects cfg env s)
     = trace s @ map EvRetireRequests [0..<num_gt cfg] @ [EvDrainFreedObjects]"
  by (simp_all add: reap_dead_objects_def Let_def emit_def)

lemma attach_offset_add_fail:
  assumes "\<not> vm_node_allocated (vma_node (mmos s p))"
    and "drm_mm_insert_node (vma_offset_manager s) (unat (base_size (objs s obj) div 4096)) = None"
  shows "attach_offset_add obj p s = (- ENOSPC, emit (EvOffsetAdd p (- ENOSPC)) s)"
  using assms
  by (simp add: attach_offset_add_def drm_vma_offset_add_def Let_def upd_mmo_def emit_def)

lemma attach_offset_add_ok:
  assumes "\<not> vm_node_allocated (vma_node (mmos s p))"
    and "drm_mm_insert_node (vma_offset_manager s) (unat (base_size (objs s obj) div 4096)) = Some st"
    and "attach_offset_add obj p s = (err, s')"
  shows "err = 0" and "trace s' = trace s @ [EvOffsetAdd p 0]"
    and "vm_node_start (vma_node (mmos s' p)) = st"
    and "vm_node_allocated (vma_node (mmos s' p))"
    and "vm_files (vma_node (mmos s' p)) = vm_files (vma_node (mmos s p))"
    and "(st, unat (base_size (objs s obj) div 4096)) \<in> set (mgr_nodes (vma_offset_manager s'))"
  using assms
  by (auto simp: attach_offset_add_def drm_vma_offset_add_def Let_def upd_mmo_def emit_def)

lemma attach_insert_won:
  assumes bal: "\<And>t. inorder (bal t) = inorder t"
    and ok: "registry_ok obj s"
    and pe: "pending obj ty s p"
    and none: "records_of_type obj ty s = []"
  shows "attach_insert bal env obj ty p file s
           = Inr (attach_out env p file (snd (insert_mmo bal obj p s)))"
proof -
  have n: "\<forall>q \<in> set_tree (mmo_offsets (objs s obj)). mmap_type (mmos s q) \<noteq> mmap_type (mmos s p)"
    using pe none by (auto simp: pending_def records_of_type_def filter_empty_conv)
  have plt: "p < next_ptr s" using pe by (simp add: pending_def)
  note W = insert_mmo_won [OF bal ok n plt]
  let ?s1 = "snd (insert_mmo bal obj p s)"
  have "p \<in> set_tree (mmo_offsets (objs ?s1 obj))" using W(2) by simp
  moreover have "mmap_type (mmos ?s1 p) = ty" using W(3) pe by (simp add: pending_def)
  ultimately have "lookup_mmo obj ty ?s1 = Some p"
    using lookup_mmo_loop_found [of "mmos ?s1" "mmo_offsets (objs ?s1 obj)" p] W(5)
    by (auto simp: lookup_mmo_def registry_ok_def)
  then show ?thesis using W(1) by (simp add: attach_insert_def case_prod_beta)
qed

lemma lookup_mmo_None_records:
  assumes "registry_ok obj s" and "lookup_mmo obj ty s = None"
  shows "records_of_type obj ty s = []"
  using lookup_mmo_loop_None [of "mmos s" "mmo_offsets (objs s obj)" ty] assms
  by (auto simp: records_of_type_def filter_empty_conv lookup_mmo_def registry_ok_def)

text \<open>
  C6 (amended). When the registry holds no record for (object, type), the record is
  allocated and the first \<open>drm_vma_offset_add\<close> finds no room, the operation retires
  requests on every GT and drains the freed objects once and tries
  \<open>drm_vma_offset_add\<close> a second time, on the offset manager without the reaped nodes.
  If that attempt finds no room either, the operation frees the record and fails with
  \<open>-ENOSPC\<close>, the registry unchanged, with no further reclamation or attempt. If it
  finds room, the record is committed to the registry with the offset found, and the
  operation returns it, unless a file is given and the allocation of its allow-list
  entry fails: then the operation fails with \<open>-ENOMEM\<close> and the record stays in the
  registry.
\<close>

theorem C6_reclaim_once_amended:
  fixes s :: i915_state and obj :: nat and env :: attach_env and cfg :: i915_config
    and pages p :: nat and mgr' :: drm_vma_offset_manager and pre :: "event list"
  defines "pages \<equiv> unat (base_size (objs s obj) div 4096)"
    and "p \<equiv> next_ptr s"
    and "mgr' \<equiv> (vma_offset_manager s)
           \<lparr> mgr_nodes := filter (\<lambda>n. n \<notin> set (reaped_nodes env))
                             (mgr_nodes (vma_offset_manager s)) \<rparr>"
    and "pre \<equiv> trace s @ [EvOffsetAdd p (- ENOSPC)] @ map EvRetireRequests [0..<num_gt cfg]
                 @ [EvDrainFreedObjects]"
  assumes bal: "\<forall>t. inorder (bal t) = inorder t"
    and ok: "registry_ok obj s"
    and fl: "\<not> ops_mmap_offset (objs s obj)" "\<not> ops_mmap_ops (objs s obj)"
    and none: "lookup_mmo obj ty s = None"
    and km: "kmalloc_mmo_ok env"
    and full: "drm_mm_insert_node (vma_offset_manager s) pages = None"
  shows "case drm_mm_insert_node mgr' pages of
           None \<Rightarrow>
             (\<exists>s'. i915_gem_mmap_offset_attach bal cfg env obj ty filp s = Inr (Inl (- ENOSPC), s')
                \<and> trace s' = pre @ [EvOffsetAdd p (- ENOSPC), EvKfree p]
                \<and> mmo_offsets (objs s' obj) = mmo_offsets (objs s obj))
         | Some st \<Rightarrow>
             (\<exists>s'. i915_gem_mmap_offset_attach bal cfg env obj ty filp s
                      = Inr (if filp \<noteq> None \<and> \<not> kmalloc_file_ok env
                             then Inl (- ENOMEM) else Inr p, s')
                \<and> trace s' = pre @ [EvOffsetAdd p 0]
                \<and> lookup_mmo obj ty s' = Some p
                \<and> records_of_type obj ty s' = [p]
                \<and> vm_node_allocated (vma_node (mmos s' p))
                \<and> vm_node_start (vma_node (mmos s' p)) = st)"
proof -
  have bal': "\<And>t. inorder (bal t) = inorder t" using bal by simp
  obtain s1 where n: "attach_new_mmo obj ty s = (p, s1)"
    by (simp add: attach_new_mmo_def Let_def p_def)
  note N1 = attach_new_mmo_reg_step [OF n, where ob=obj]
  note N = attach_new_mmo_step [OF n]
  have na1: "\<not> vm_node_allocated (vma_node (mmos s1 p))"
    and vf1: "vm_files (vma_node (mmos s1 p)) = []"
    using N(5) by (simp_all add: drm_vma_node_reset_def)
  have full1: "drm_mm_insert_node (vma_offset_manager s1) (unat (base_size (objs s1 obj) div 4096)) = None"
    using full N(4,6) by (simp add: pages_def)
  define s2 where "s2 = emit (EvOffsetAdd p (- ENOSPC)) s1"
  have a1: "attach_offset_add obj p s1 = (- ENOSPC, s2)"
    unfolding s2_def by (rule attach_offset_add_fail [OF na1 full1])
  note A1r = attach_offset_add_reg_step [OF a1, where ob=obj]
  define s3 where "s3 = reap_dead_objects cfg env s2"
  note R1 = reap_dead_objects_reg_step [where obj=obj and s=s2 and cfg=cfg and env=env]
  have r03: "reg_step obj s s3 {}"
    using reg_step_trans [OF reg_step_trans [OF N1 A1r] R1] by (simp add: s3_def)
  have objs3: "objs s3 = objs s"
    by (simp add: s3_def s2_def reap_dead_objects_step emit_def N(4))
  have mmos3: "mmos s3 = mmos s1"
    by (simp add: s3_def s2_def reap_dead_objects_step emit_def)
  have np3: "next_ptr s3 = Suc p"
    by (simp add: s3_def s2_def reap_dead_objects_step emit_def N(2))
  have mgr3: "vma_offset_manager s3 = mgr'"
    by (simp add: s3_def s2_def reap_dead_objects_def Let_def emit_def N(6) mgr'_def)
  have tr3: "trace s3 = pre"
    by (simp add: s3_def s2_def reap_dead_objects_def Let_def emit_def N(7) pre_def)
  have na3: "\<not> vm_node_allocated (vma_node (mmos s3 p))" using na1 mmos3 by simp
  have ok3: "registry_ok obj s3"
    using reg_step_registry_ok [OF ok r03] objs3 by simp
  have nz: "- ENOSPC \<noteq> (0::int)" by (simp add: ENOSPC_def)
  have head: "i915_gem_mmap_offset_attach bal cfg env obj ty filp s =
      (let (err', s4) = attach_offset_add obj p s3
       in if err' \<noteq> 0 then Inr (Inl err', emit (EvKfree p) s4)
          else attach_insert bal env obj ty p filp s4)"
    using fl none km n a1 nz by (simp add: i915_gem_mmap_offset_attach_def s3_def)
  show ?thesis
  proof (cases "drm_mm_insert_node mgr' pages")
    case None
    have "drm_mm_insert_node (vma_offset_manager s3) (unat (base_size (objs s3 obj) div 4096)) = None"
      using None mgr3 objs3 by (simp add: pages_def)
    then have a2: "attach_offset_add obj p s3 = (- ENOSPC, emit (EvOffsetAdd p (- ENOSPC)) s3)"
      by (rule attach_offset_add_fail [OF na3])
    let ?s' = "emit (EvKfree p) (emit (EvOffsetAdd p (- ENOSPC)) s3)"
    have "i915_gem_mmap_offset_attach bal cfg env obj ty filp s = Inr (Inl (- ENOSPC), ?s')"
      using head a2 nz by simp
    moreover have "trace ?s' = pre @ [EvOffsetAdd p (- ENOSPC), EvKfree p]"
      using tr3 by (simp add: emit_def)
    moreover have "mmo_offsets (objs ?s' obj) = mmo_offsets (objs s obj)"
      using objs3 by (simp add: emit_def)
    ultimately show ?thesis using None by auto
  next
    case (Some st)
    have ins: "drm_mm_insert_node (vma_offset_manager s3) (unat (base_size (objs s3 obj) div 4096)) = Some st"
      using Some mgr3 objs3 by (simp add: pages_def)
    obtain err s4 where a2: "attach_offset_add obj p s3 = (err, s4)"
      by (cases "attach_offset_add obj p s3")
    note A = attach_offset_add_ok [OF na3 ins a2]
    note A2r = attach_offset_add_reg_step [OF a2, where ob=obj]
    note A2 = attach_offset_add_step [OF a2]
    have ok4: "registry_ok obj s4" using reg_step_registry_ok [OF ok3 A2r] A2(1) by simp
    have "p \<notin> set_tree (mmo_offsets (objs s obj))"
      using registry_ok_tree [OF ok, of p] by (auto simp: p_def)
    then have pe4: "pending obj ty s4 p"
      using A2 objs3 mmos3 np3 N(3) by (simp add: pending_def)
    have "records_of_type obj ty s = []" by (rule lookup_mmo_None_records [OF ok none])
    moreover have "\<forall>q \<in> set (inorder (mmo_offsets (objs s obj))). mmap_type (mmos s4 q) = mmap_type (mmos s q)"
    proof
      fix q assume "q \<in> set (inorder (mmo_offsets (objs s obj)))"
      then have "q < next_ptr s" using registry_ok_tree [OF ok, of q] by simp
      then have "mmap_type (mmos s3 q) = mmap_type (mmos s q)" using r03 by (simp add: reg_step_def)
      then show "mmap_type (mmos s4 q) = mmap_type (mmos s q)" using A2(3) by simp
    qed
    ultimately have none4: "records_of_type obj ty s4 = []"
      using A2(1) objs3 by (simp add: records_of_type_def filter_empty_conv)
    define s5 where "s5 = snd (insert_mmo bal obj p s4)"
    have ai: "attach_insert bal env obj ty p filp s4 = Inr (attach_out env p filp s5)"
      unfolding s5_def by (rule attach_insert_won [OF bal' ok4 pe4 none4])
    have n4: "\<forall>q \<in> set_tree (mmo_offsets (objs s4 obj)). mmap_type (mmos s4 q) \<noteq> mmap_type (mmos s4 p)"
      using pe4 none4 by (auto simp: pending_def records_of_type_def filter_empty_conv)
    have plt: "p < next_ptr s4" using pe4 by (simp add: pending_def)
    note W = insert_mmo_won [OF bal' ok4 n4 plt, folded s5_def]
    have v5: "visible obj ty s5 p" using W(2,3) pe4 by (simp add: visible_def pending_def)
    have vf5: "vm_files (vma_node (mmos s5 p)) = []"
      using W(3) A(5) vf1 mmos3 by simp
    obtain r s6 where o: "attach_out env p filp s5 = (r, s6)" by (cases "attach_out env p filp s5")
    note O1 = attach_out_reg_step [OF o, where obj=obj]
    note O = attach_out_step [OF o]
    have rr: "r = (if filp \<noteq> None \<and> \<not> kmalloc_file_ok env then Inl (- ENOMEM) else Inr p)"
      using o vf5 by (auto simp: attach_out_def vma_node_allow_once_def ENOMEM_def
          split: option.splits if_splits)
    have ok6: "registry_ok obj s6" using reg_step_registry_ok [OF W(5) O1] O(1) by simp
    have v6: "visible obj ty s6 p" using v5 O(1,3) by (simp add: visible_def)
    have l6: "lookup_mmo obj ty s6 = Some p"
      using lookup_mmo_loop_found [of "mmos s6" "mmo_offsets (objs s6 obj)" p] v6 ok6
      by (auto simp: lookup_mmo_def registry_ok_def visible_def)
    have r6: "records_of_type obj ty s6 = [p]" by (rule records_of_type_visible [OF ok6 v6])
    have nd: "vma_node (mmos s6 p) = (vma_node (mmos s5 p)) \<lparr> vm_files := vm_files (vma_node (mmos s6 p)) \<rparr>"
      using o by (auto simp: attach_out_def vma_node_allow_once_def upd_mmo_def
          split: option.splits if_splits)
    have al6: "vm_node_allocated (vma_node (mmos s6 p))"
      and st6: "vm_node_start (vma_node (mmos s6 p)) = st"
      using A(3,4) W(3) by (subst nd, simp)+
    have tr6: "trace s6 = pre @ [EvOffsetAdd p 0]"
      using O(6) W(7) A(2) tr3 by simp
    have "i915_gem_mmap_offset_attach bal cfg env obj ty filp s = Inr (r, s6)"
      using head a2 A(1) ai o by simp
    then show ?thesis using Some rr tr6 l6 r6 al6 st6 by auto
  qed
qed

lemmas attach_seq_defs = i915_gem_mmap_offset_attach_def attach_insert_def attach_new_mmo_def
  attach_offset_add_def attach_out_def insert_mmo_def lookup_mmo_def vma_node_allow_once_def
  reap_dead_objects_def drm_vma_offset_add_def drm_vma_offset_remove_def drm_mm_insert_node_def
  mgr_fits_def drm_vma_node_reset_def emit_def upd_mmo_def upd_obj_def

lemmas fixture2_defs = full_state_def reaping_env_def reaping_env_nomem_def idle_state_def
  small_obj_def shmem_object_def idle_vma_def idle_region_def test_config_def good_attach_env_def

text \<open>
  C6, as stated, fails: the retry after reclamation succeeds and the record is
  committed, but the operation fails with \<open>-ENOMEM\<close> because
  \<open>vma_node_allow_once\<close> could not allocate the entry for the file.
\<close>

theorem C6_allow_list_counterexample:
  "lookup_mmo 7 I915_MMAP_TYPE_WB full_state = None
   \<and> drm_mm_insert_node (vma_offset_manager full_state) 16 = None
   \<and> drm_mm_insert_node
         ((vma_offset_manager full_state)
            \<lparr> mgr_nodes := filter (\<lambda>n. n \<notin> set (reaped_nodes reaping_env_nomem))
                              (mgr_nodes (vma_offset_manager full_state)) \<rparr>) 16
       = Some 0x100000
   \<and> (case i915_gem_mmap_offset_attach (\<lambda>t. t) test_config reaping_env_nomem 7
             I915_MMAP_TYPE_WB (Some 100) full_state of
         Inl trap \<Rightarrow> False
       | Inr (r, s') \<Rightarrow>
           r = Inl (- ENOMEM)
           \<and> trace s' = [EvOffsetAdd 0 (- ENOSPC), EvRetireRequests 0, EvDrainFreedObjects,
                          EvOffsetAdd 0 0]
           \<and> mmo_offsets (objs s' 7) = Node Leaf 0 Leaf)"
  by (simp add: attach_seq_defs fixture2_defs Let_def errno_defs)

text \<open>
  Both outcomes on the full device: reaping the dead node makes room and the attach
  returns record 0; reaping nothing ends in \<open>-ENOSPC\<close> after one reclamation and two
  attempts.
\<close>

theorem C6_reclaim_once_amended_witness:
  "(\<forall>t. inorder ((\<lambda>t. t) t) = inorder (t :: nat tree))
   \<and> registry_ok 7 full_state
   \<and> \<not> ops_mmap_offset (objs full_state 7) \<and> \<not> ops_mmap_ops (objs full_state 7)
   \<and> lookup_mmo 7 I915_MMAP_TYPE_WB full_state = None
   \<and> kmalloc_mmo_ok reaping_env \<and> kmalloc_mmo_ok good_attach_env
   \<and> drm_mm_insert_node (vma_offset_manager full_state)
        (unat (base_size (objs full_state 7) div 4096)) = None
   \<and> (\<exists>s'. i915_gem_mmap_offset_attach (\<lambda>t. t) test_config reaping_env 7
               I915_MMAP_TYPE_WB (Some 100) full_state = Inr (Inr 0, s')
          \<and> trace s' = [EvOffsetAdd 0 (- ENOSPC), EvRetireRequests 0, EvDrainFreedObjects,
                         EvOffsetAdd 0 0]
          \<and> lookup_mmo 7 I915_MMAP_TYPE_WB s' = Some 0
          \<and> vm_node_start (vma_node (mmos s' 0)) = 0x100000)
   \<and> (\<exists>s'. i915_gem_mmap_offset_attach (\<lambda>t. t) test_config good_attach_env 7
               I915_MMAP_TYPE_WB (Some 100) full_state = Inr (Inl (- ENOSPC), s')
          \<and> trace s' = [EvOffsetAdd 0 (- ENOSPC), EvRetireRequests 0, EvDrainFreedObjects,
                         EvOffsetAdd 0 (- ENOSPC), EvKfree 0]
          \<and> mmo_offsets (objs s' 7) = mmo_offsets (objs full_state 7))"
proof -
  have h1: "\<forall>t. inorder ((\<lambda>t. t) t) = inorder (t :: nat tree)" by simp
  have h2: "registry_ok 7 full_state" by (simp add: registry_ok_def fixture2_defs)
  have h3: "\<not> ops_mmap_offset (objs full_state 7)" by (simp add: fixture2_defs)
  have h4: "\<not> ops_mmap_ops (objs full_state 7)" by (simp add: fixture2_defs)
  have h5: "lookup_mmo 7 I915_MMAP_TYPE_WB full_state = None"
    by (simp add: lookup_mmo_def fixture2_defs)
  have h6: "kmalloc_mmo_ok reaping_env" by (simp add: fixture2_defs)
  have h6': "kmalloc_mmo_ok good_attach_env" by (simp add: fixture2_defs)
  have h7: "drm_mm_insert_node (vma_offset_manager full_state)
        (unat (base_size (objs full_state 7) div 4096)) = None"
    by (simp add: drm_mm_insert_node_def mgr_fits_def fixture2_defs)
  have np: "next_ptr full_state = 0" and tr: "trace full_state = []"
    and ng: "num_gt test_config = 1"
    by (simp_all add: fixture2_defs)
  have i1: "drm_mm_insert_node
         ((vma_offset_manager full_state)
            \<lparr> mgr_nodes := filter (\<lambda>n. n \<notin> set (reaped_nodes reaping_env))
                              (mgr_nodes (vma_offset_manager full_state)) \<rparr>)
         (unat (base_size (objs full_state 7) div 4096)) = Some 0x100000"
    by (simp add: drm_mm_insert_node_def mgr_fits_def fixture2_defs)
  have i2: "drm_mm_insert_node
         ((vma_offset_manager full_state)
            \<lparr> mgr_nodes := filter (\<lambda>n. n \<notin> set (reaped_nodes good_attach_env))
                              (mgr_nodes (vma_offset_manager full_state)) \<rparr>)
         (unat (base_size (objs full_state 7) div 4096)) = None"
    by (simp add: drm_mm_insert_node_def mgr_fits_def fixture2_defs)
  have f: "kmalloc_file_ok reaping_env" by (simp add: fixture2_defs)
  have a: "\<exists>s'. i915_gem_mmap_offset_attach (\<lambda>t. t) test_config reaping_env 7
               I915_MMAP_TYPE_WB (Some 100) full_state = Inr (Inr 0, s')
          \<and> trace s' = [EvOffsetAdd 0 (- ENOSPC), EvRetireRequests 0, EvDrainFreedObjects,
                         EvOffsetAdd 0 0]
          \<and> lookup_mmo 7 I915_MMAP_TYPE_WB s' = Some 0
          \<and> vm_node_start (vma_node (mmos s' 0)) = 0x100000"
    using C6_reclaim_once_amended [OF h1 h2 h3 h4 h5 h6 h7, where cfg=test_config
        and filp="Some 100"]
    unfolding i1 option.case np tr ng using f by auto
  have b: "\<exists>s'. i915_gem_mmap_offset_attach (\<lambda>t. t) test_config good_attach_env 7
               I915_MMAP_TYPE_WB (Some 100) full_state = Inr (Inl (- ENOSPC), s')
          \<and> trace s' = [EvOffsetAdd 0 (- ENOSPC), EvRetireRequests 0, EvDrainFreedObjects,
                         EvOffsetAdd 0 (- ENOSPC), EvKfree 0]
          \<and> mmo_offsets (objs s' 7) = mmo_offsets (objs full_state 7)"
    using C6_reclaim_once_amended [OF h1 h2 h3 h4 h5 h6' h7, where cfg=test_config
        and filp="Some 100"]
    unfolding i2 option.case np tr ng by auto
  from h1 h2 h3 h4 h5 h6 h6' h7 a b show ?thesis by blast
qed

text \<open>A caller that runs alone executes \<open>i915_gem_mmap_offset_attach\<close>.\<close>

lemma attach_race_Done:
  "attach_race bal cfg obj ty c1 c2 (replicate n True) (AtDone r, pc2, s) = (AtDone r, pc2, s)"
  by (induction n) (simp_all add: attach_step_def)

lemma attach_race_from_out:
  "attach_race bal cfg obj ty (env, filp) c2 (replicate (Suc n) True) (AtOut m, pc2, s)
     = (case attach_out env m filp s of (r, s') \<Rightarrow> (AtDone (Inr r), pc2, s'))"
  by (simp add: attach_step_def attach_race_Done split: prod.splits)

lemma attach_race_from_check:
  "attach_race bal cfg obj ty (env, filp) c2 (replicate (Suc (Suc n)) True) (AtCheck m, pc2, s)
     = (if lookup_mmo obj ty s \<noteq> Some m then (AtDone (Inl BugOn), pc2, s)
        else case attach_out env m filp s of (r, s') \<Rightarrow> (AtDone (Inr r), pc2, s'))"
proof (cases "lookup_mmo obj ty s = Some m")
  case True
  then show ?thesis
    using attach_race_from_out [of bal cfg obj ty env filp c2 n m pc2 s]
    by (simp add: attach_step_def)
next
  case False
  then show ?thesis
    using attach_race_Done [of bal cfg obj ty "(env, filp)" c2 "Suc n"]
    by (simp add: attach_step_def)
qed

lemma attach_race_from_insert:
  "attach_race bal cfg obj ty (env, filp) c2 (replicate (Suc (Suc (Suc n))) True) (AtInsert p, pc2, s)
     = (case attach_insert bal env obj ty p filp s of
          Inl trap \<Rightarrow> (AtDone (Inl trap), pc2, snd (insert_mmo bal obj p s))
        | Inr (r, s') \<Rightarrow> (AtDone (Inr r), pc2, s'))"
proof -
  obtain m s1 where i: "insert_mmo bal obj p s = (m, s1)" by (cases "insert_mmo bal obj p s")
  have "attach_race bal cfg obj ty (env, filp) c2 (replicate (Suc (Suc (Suc n))) True) (AtInsert p, pc2, s)
        = attach_race bal cfg obj ty (env, filp) c2 (replicate (Suc (Suc n)) True) (AtCheck m, pc2, s1)"
    using i by (simp add: attach_step_def)
  then show ?thesis
    using i attach_race_from_check [of bal cfg obj ty env filp c2 n m pc2 s1]
    by (simp add: attach_insert_def split: prod.splits)
qed

lemma attach_race_from_retry:
  "attach_race bal cfg obj ty (env, filp) c2 (replicate (Suc (Suc (Suc (Suc n)))) True) (AtRetry p, pc2, s)
     = (case attach_offset_add obj p s of
          (err', s4) \<Rightarrow>
            if err' \<noteq> 0 then (AtDone (Inr (Inl err')), pc2, emit (EvKfree p) s4)
            else case attach_insert bal env obj ty p filp s4 of
                   Inl trap \<Rightarrow> (AtDone (Inl trap), pc2, snd (insert_mmo bal obj p s4))
                 | Inr (r, s') \<Rightarrow> (AtDone (Inr r), pc2, s'))"
proof -
  obtain err' s4 where a: "attach_offset_add obj p s = (err', s4)"
    by (cases "attach_offset_add obj p s")
  show ?thesis
  proof (cases "err' = 0")
    case True
    have "attach_race bal cfg obj ty (env, filp) c2 (replicate (Suc (Suc (Suc (Suc n)))) True) (AtRetry p, pc2, s)
          = attach_race bal cfg obj ty (env, filp) c2 (replicate (Suc (Suc (Suc n))) True) (AtInsert p, pc2, s4)"
      using a True by (simp add: attach_step_def)
    then show ?thesis using a True attach_race_from_insert [of bal cfg obj ty env filp c2 n p pc2 s4]
      by simp
  next
    case False
    have "attach_race bal cfg obj ty (env, filp) c2 (replicate (Suc (Suc (Suc (Suc n)))) True) (AtRetry p, pc2, s)
          = attach_race bal cfg obj ty (env, filp) c2 (replicate (Suc (Suc (Suc n))) True)
              (AtDone (Inr (Inl err')), pc2, emit (EvKfree p) s4)"
      using a False by (simp add: attach_step_def)
    then show ?thesis using a False attach_race_Done [of bal cfg obj ty "(env, filp)" c2 "Suc (Suc (Suc n))"]
      by simp
  qed
qed

lemma attach_race_from_alloc:
  "attach_race bal cfg obj ty (env, filp) c2 (replicate 6 True) (AtAlloc, pc2, s)
     = (if \<not> kmalloc_mmo_ok env then (AtDone (Inr (Inl (- ENOMEM))), pc2, s)
        else case attach_new_mmo obj ty s of
          (p, s1) \<Rightarrow>
            (case attach_offset_add obj p s1 of
               (err, s2) \<Rightarrow>
                 if err = 0
                 then (case attach_insert bal env obj ty p filp s2 of
                         Inl trap \<Rightarrow> (AtDone (Inl trap), pc2, snd (insert_mmo bal obj p s2))
                       | Inr (r, s') \<Rightarrow> (AtDone (Inr r), pc2, s'))
                 else (case attach_offset_add obj p (reap_dead_objects cfg env s2) of
                         (err', s4) \<Rightarrow>
                           if err' \<noteq> 0 then (AtDone (Inr (Inl err')), pc2, emit (EvKfree p) s4)
                           else case attach_insert bal env obj ty p filp s4 of
                                  Inl trap \<Rightarrow> (AtDone (Inl trap), pc2, snd (insert_mmo bal obj p s4))
                                | Inr (r, s') \<Rightarrow> (AtDone (Inr r), pc2, s'))))"
proof (cases "kmalloc_mmo_ok env")
  case False
  have r: "replicate 6 True = True # replicate 5 True" by (simp add: numeral_eq_Suc)
  show ?thesis unfolding r using False attach_race_Done [of bal cfg obj ty "(env, filp)" c2 5]
    by (simp add: attach_step_def)
next
  case True
  obtain p s1 where n: "attach_new_mmo obj ty s = (p, s1)" by (cases "attach_new_mmo obj ty s")
  obtain err s2 where a: "attach_offset_add obj p s1 = (err, s2)"
    by (cases "attach_offset_add obj p s1")
  have r: "replicate 6 True = True # True # replicate (Suc (Suc (Suc (Suc 0)))) True"
    by (simp add: numeral_eq_Suc)
  have r': "True # replicate (Suc (Suc (Suc (Suc 0)))) True
            = replicate (Suc (Suc (Suc 0))) True @ [True, True]"
    by simp
  show ?thesis
  proof (cases "err = 0")
    case e: True
    have "attach_race bal cfg obj ty (env, filp) c2 (replicate 6 True) (AtAlloc, pc2, s)
          = attach_race bal cfg obj ty (env, filp) c2 (replicate (Suc (Suc (Suc (Suc (Suc 0))))) True)
              (AtInsert p, pc2, s2)"
      unfolding r using True n a e by (simp add: attach_step_def)
    then show ?thesis
      using True n a e attach_race_from_insert [of bal cfg obj ty env filp c2 "Suc (Suc 0)" p pc2 s2]
      by simp
  next
    case e: False
    have "attach_race bal cfg obj ty (env, filp) c2 (replicate 6 True) (AtAlloc, pc2, s)
          = attach_race bal cfg obj ty (env, filp) c2 (replicate (Suc (Suc (Suc (Suc 0)))) True)
              (AtRetry p, pc2, reap_dead_objects cfg env s2)"
      unfolding r using True n a e by (simp add: attach_step_def)
    then show ?thesis
      using True n a e
        attach_race_from_retry [of bal cfg obj ty env filp c2 0 p pc2 "reap_dead_objects cfg env s2"]
      by simp
  qed
qed

lemma attach_race_alone:
  "fst (attach_race bal cfg obj ty (env, filp) c2 (replicate 7 True) (AtLookup, pc2, s))
     = AtDone (case i915_gem_mmap_offset_attach bal cfg env obj ty filp s of
                 Inl trap \<Rightarrow> Inl trap | Inr (r, s') \<Rightarrow> Inr r)"
  and "\<forall>r s'. i915_gem_mmap_offset_attach bal cfg env obj ty filp s = Inr (r, s') \<longrightarrow>
         attach_race bal cfg obj ty (env, filp) c2 (replicate 7 True) (AtLookup, pc2, s)
           = (AtDone (Inr r), pc2, s')"
proof -
  have r: "replicate 7 True = True # replicate 6 True" by (simp add: numeral_eq_Suc)
  have r6: "replicate 6 True = replicate (Suc 5) True" by (simp add: numeral_eq_Suc)
  let ?run = "attach_race bal cfg obj ty (env, filp) c2 (replicate 7 True) (AtLookup, pc2, s)"
  have "?run = (case i915_gem_mmap_offset_attach bal cfg env obj ty filp s of
                  Inl trap \<Rightarrow> (AtDone (Inl trap), pc2, snd (snd ?run))
                | Inr (r, s') \<Rightarrow> (AtDone (Inr r), pc2, s'))"
  proof (cases "ops_mmap_offset (objs s obj) \<or> ops_mmap_ops (objs s obj)")
    case True
    then have "?run = (AtDone (Inl BugOn), pc2, s)"
      unfolding r using attach_race_Done [of bal cfg obj ty "(env, filp)" c2 6]
      by (auto simp: attach_step_def)
    then show ?thesis using True by (simp add: i915_gem_mmap_offset_attach_def)
  next
    case False
    show ?thesis
    proof (cases "lookup_mmo obj ty s")
      case (Some m)
      have "?run = attach_race bal cfg obj ty (env, filp) c2 (replicate (Suc 5) True) (AtOut m, pc2, s)"
        unfolding r r6 using False Some by (simp add: attach_step_def)
      then show ?thesis
        using False Some attach_race_from_out [of bal cfg obj ty env filp c2 5 m pc2 s]
        by (simp add: i915_gem_mmap_offset_attach_def split: prod.splits)
    next
      case None
      have e: "?run = attach_race bal cfg obj ty (env, filp) c2 (replicate 6 True) (AtAlloc, pc2, s)"
        unfolding r using False None by (simp add: attach_step_def)
      show ?thesis
        unfolding e [symmetric]
        using False None e attach_race_from_alloc [of bal cfg obj ty env filp c2 pc2 s]
        by (auto simp: i915_gem_mmap_offset_attach_def Let_def split: prod.splits sum.splits)
    qed
  qed
  then have E: "?run = (case i915_gem_mmap_offset_attach bal cfg env obj ty filp s of
                  Inl trap \<Rightarrow> (AtDone (Inl trap), pc2, snd (snd ?run))
                | Inr (r, s') \<Rightarrow> (AtDone (Inr r), pc2, s'))" .
  have "fst ?run = fst (case i915_gem_mmap_offset_attach bal cfg env obj ty filp s of
                  Inl trap \<Rightarrow> (AtDone (Inl trap), pc2, snd (snd ?run))
                | Inr (r, s') \<Rightarrow> (AtDone (Inr r), pc2, s'))"
    using E by (rule arg_cong)
  then show "fst ?run = AtDone (case i915_gem_mmap_offset_attach bal cfg env obj ty filp s of
                 Inl trap \<Rightarrow> Inl trap | Inr (r, s') \<Rightarrow> Inr r)"
    by (simp split: sum.splits prod.splits)
  show "\<forall>r s'. i915_gem_mmap_offset_attach bal cfg env obj ty filp s = Inr (r, s') \<longrightarrow>
         ?run = (AtDone (Inr r), pc2, s')"
  proof (intro allI impI)
    fix r s' assume a: "i915_gem_mmap_offset_attach bal cfg env obj ty filp s = Inr (r, s')"
    show "?run = (AtDone (Inr r), pc2, s')" by (subst E) (simp add: a)
  qed
qed

subsection \<open>The swap-on-fault policy\<close>

lemmas swap_defs = use_swapto_def create_swapto_def i915_gem_flush_free_objects_def
  i915_gem_object_create_shmem_def i915_gem_object_share_resv_def emit_def upd_obj_def

lemmas fixture3_defs = lmem_state_def lmem_obj_def good_cpu_env_def idle_state_def
  small_obj_def shmem_object_def idle_vma_def idle_region_def test_config_def

text \<open>
  C2 (amended). With both swap options of the build enabled, for an allocated
  device-local object with no resident pages, not purged and with no shadow yet, faulted
  with write intent: when twice the object's size (in 64 bits) is below the home
  region's free budget, read after freed objects were flushed, no shadow is created and
  the object itself is used; otherwise a host-memory-backed shadow is created (of the
  object's size, plus 1/256 when flat CCS is present and the GT is not wedged), marked
  for CPU clear, given the object's reservation and installed as its \<open>swapto\<close>,
  provided \<open>i915_gem_object_create_shmem\<close> succeeds; when that fails the object itself is
  used and no shadow is installed.
\<close>

theorem C2_swap_policy_amended:
  fixes s :: i915_state and obj :: nat and env :: cpu_env and cfg :: i915_config
    and budget sz sz' :: "64 word" and swp :: nat
  defines "budget \<equiv> avail (regions s (mm_region (objs s obj))) + c_flush_freed env"
    and "sz \<equiv> base_size (objs s obj)"
    and "sz' \<equiv> (if has_flat_ccs cfg \<and> \<not> gt_wedged (regions s (mm_region (objs s obj)))
                then base_size (objs s obj) + drop_bit 8 (base_size (objs s obj))
                else base_size (objs s obj))"
    and "swp \<equiv> next_ptr s"
  assumes cfg: "chicken_mmap_swap cfg" "chicken_mmap_swap_create cfg"
    and lm: "is_lmem (objs s obj)"
    and np: "\<not> has_pages (objs s obj)"
    and mv: "mm_madv (objs s obj) \<noteq> I915_MADV_PURGED"
    and ns: "swapto (objs s obj) = None"
    and al: "obj < next_ptr s"
  shows "(2 * sz < budget \<longrightarrow>
           (\<exists>s'. use_swapto cfg env obj True s = Inr (obj, s')
              \<and> swapto (objs s' obj) = None \<and> next_ptr s' = next_ptr s
              \<and> trace s' = trace s @ [EvFlushFreeObjects]))
       \<and> (\<not> 2 * sz < budget \<and> c_create_shmem env = 0 \<longrightarrow>
           (\<exists>s'. use_swapto cfg env obj True s = Inr (swp, s')
              \<and> swapto (objs s' obj) = Some swp
              \<and> base_resv (objs s' swp) = base_resv (objs s' obj)
              \<and> objs s' swp = (shmem_object sz' swp)
                                 \<lparr> base_resv := base_resv (objs s obj), bo_cpu_clear := True \<rparr>
              \<and> trace s' = trace s @ [EvFlushFreeObjects, EvCreateShmem sz' 0]))
       \<and> (\<not> 2 * sz < budget \<and> c_create_shmem env \<noteq> 0 \<longrightarrow>
           (\<exists>s'. use_swapto cfg env obj True s = Inr (obj, s')
              \<and> swapto (objs s' obj) = None \<and> next_ptr s' = next_ptr s))"
proof -
  have ne: "obj \<noteq> next_ptr s" using al by simp
  show ?thesis
    using cfg lm np mv ns ne
    by (simp add: swap_defs Let_def budget_def sz_def sz'_def swp_def)
qed

text \<open>The comparison of \<open>create_swapto\<close> in the naturals, when doubling does not wrap.\<close>

lemma swap_budget_nat:
  fixes sz budget :: "64 word"
  assumes "unat sz < 2^63"
  shows "(2 * sz < budget) = (2 * unat sz < unat budget)"
proof -
  have "unat (2 :: 64 word) * unat sz < 2^64" using assms by simp
  then have "unat (2 * sz) = unat (2 :: 64 word) * unat sz"
    by (simp add: unat_mult_lem [THEN iffD1])
  then show ?thesis by (simp add: word_less_nat_alt)
qed

text \<open>
  C2, as stated, fails in both directions. A 1 MiB device-local object without pages in
  a region with 1.5 MiB free is faulted for writing: twice its size exceeds the budget,
  and a shadow is created and installed. With 4 MiB free (the inverse relation) no
  shadow is created.
\<close>

theorem C2_budget_counterexample:
  "is_lmem (objs lmem_state 3) \<and> \<not> has_pages (objs lmem_state 3)
   \<and> mm_madv (objs lmem_state 3) \<noteq> I915_MADV_PURGED
   \<and> avail (regions lmem_state (mm_region (objs lmem_state 3))) < 2 * base_size (objs lmem_state 3)
   \<and> (case use_swapto test_config good_cpu_env 3 True lmem_state of
         Inl trap \<Rightarrow> False
       | Inr (pg, s') \<Rightarrow>
           pg = 10 \<and> swapto (objs s' 3) = Some 10 \<and> \<not> is_lmem (objs s' 10)
           \<and> trace s' = [EvFlushFreeObjects, EvCreateShmem 0x100000 0])
   \<and> 2 * base_size (objs roomy_lmem_state 3)
        < avail (regions roomy_lmem_state (mm_region (objs roomy_lmem_state 3)))
   \<and> (case use_swapto test_config good_cpu_env 3 True roomy_lmem_state of
         Inl trap \<Rightarrow> False
       | Inr (pg, s') \<Rightarrow>
           pg = 3 \<and> swapto (objs s' 3) = None \<and> next_ptr s' = next_ptr roomy_lmem_state
           \<and> trace s' = [EvFlushFreeObjects])"
  by (simp add: swap_defs fixture3_defs roomy_lmem_state_def Let_def)

text \<open>The two budget cases of the amended claim on the same two devices.\<close>

theorem C2_swap_policy_amended_witness:
  "chicken_mmap_swap test_config \<and> chicken_mmap_swap_create test_config
   \<and> is_lmem (objs lmem_state 3) \<and> \<not> has_pages (objs lmem_state 3)
   \<and> mm_madv (objs lmem_state 3) \<noteq> I915_MADV_PURGED
   \<and> swapto (objs lmem_state 3) = None \<and> 3 < next_ptr lmem_state
   \<and> \<not> 2 * base_size (objs lmem_state 3)
          < avail (regions lmem_state (mm_region (objs lmem_state 3))) + c_flush_freed good_cpu_env
   \<and> c_create_shmem good_cpu_env = 0
   \<and> (\<exists>s'. use_swapto test_config good_cpu_env 3 True lmem_state = Inr (10, s')
          \<and> swapto (objs s' 3) = Some 10
          \<and> base_resv (objs s' 10) = base_resv (objs s' 3))
   \<and> 2 * base_size (objs roomy_lmem_state 3)
          < avail (regions roomy_lmem_state (mm_region (objs roomy_lmem_state 3)))
              + c_flush_freed good_cpu_env
   \<and> (\<exists>s'. use_swapto test_config good_cpu_env 3 True roomy_lmem_state = Inr (3, s')
          \<and> swapto (objs s' 3) = None)"
proof -
  have c: "chicken_mmap_swap test_config" "chicken_mmap_swap_create test_config"
    by (simp_all add: test_config_def)
  have h: "is_lmem (objs lmem_state 3)" "\<not> has_pages (objs lmem_state 3)"
    "mm_madv (objs lmem_state 3) \<noteq> I915_MADV_PURGED" "swapto (objs lmem_state 3) = None"
    "3 < next_ptr lmem_state"
    by (simp_all add: fixture3_defs)
  have h': "is_lmem (objs roomy_lmem_state 3)" "\<not> has_pages (objs roomy_lmem_state 3)"
    "mm_madv (objs roomy_lmem_state 3) \<noteq> I915_MADV_PURGED"
    "swapto (objs roomy_lmem_state 3) = None" "3 < next_ptr roomy_lmem_state"
    by (simp_all add: fixture3_defs roomy_lmem_state_def)
  have b: "\<not> 2 * base_size (objs lmem_state 3)
          < avail (regions lmem_state (mm_region (objs lmem_state 3))) + c_flush_freed good_cpu_env"
    and k: "c_create_shmem good_cpu_env = 0" and n: "next_ptr lmem_state = 10"
    by (simp_all add: fixture3_defs)
  have b': "2 * base_size (objs roomy_lmem_state 3)
          < avail (regions roomy_lmem_state (mm_region (objs roomy_lmem_state 3)))
              + c_flush_freed good_cpu_env"
    by (simp add: fixture3_defs roomy_lmem_state_def)
  note T = C2_swap_policy_amended [OF c h, where env=good_cpu_env]
  note T' = C2_swap_policy_amended [OF c h', where env=good_cpu_env]
  have x: "\<exists>s'. use_swapto test_config good_cpu_env 3 True lmem_state = Inr (10, s')
          \<and> swapto (objs s' 3) = Some 10
          \<and> base_resv (objs s' 10) = base_resv (objs s' 3)"
    using T [THEN conjunct2, THEN conjunct1] b k unfolding n by blast
  have y: "\<exists>s'. use_swapto test_config good_cpu_env 3 True roomy_lmem_state = Inr (3, s')
          \<and> swapto (objs s' 3) = None"
    using T' [THEN conjunct1] b' by blast
  from c h b k x b' y show ?thesis by blast
qed

subsection \<open>Write faults on read-only objects\<close>

lemma quiet_refl: "quiet s s"
  by (simp add: quiet_def)

lemma quiet_emit:
  "\<not> touches_memory ev \<Longrightarrow> ptes_populated ev = 0 \<Longrightarrow> quiet s s' \<Longrightarrow> quiet s (emit ev s')"
proof -
  assume a: "\<not> touches_memory ev" "ptes_populated ev = 0" "quiet s s'"
  have l: "length (trace s) \<le> length (trace s')"
    using a(3) by (metis quiet_def length_take min.cobounded1 min.commute)
  show ?thesis using a l by (simp add: quiet_def emit_def)
qed

lemma quiet_fault_return:
  assumes "quiet s s'"
  shows "quiet s (snd (fault_return err s'))"
proof -
  have l: "length (trace s) \<le> length (trace s')"
    using assms by (metis quiet_def length_take min.cobounded1 min.commute)
  show ?thesis
    using assms l
    by (auto simp: fault_return_def quiet_def emit_def Let_def split: prod.splits)
qed

lemma vm_fault_gtt_attempt_readonly:
  assumes "is_readonly (objs s obj)" and "vm_write vmf"
  shows "vm_fault_gtt_attempt cfg e vmf obj s
           = Inr (if g_lock e \<noteq> 0 then g_lock e else - EFAULT,
                  emit (EvObjectLock obj (g_lock e)) s)"
  using assms by (simp add: vm_fault_gtt_attempt_def Let_def emit_def)

lemma vm_fault_gtt_retry_readonly:
  assumes "vm_write vmf"
  shows "is_readonly (objs s obj) \<Longrightarrow> quiet s0 s \<Longrightarrow>
         (case vm_fault_gtt_retry cfg vmf obj envs s of
            None \<Rightarrow> True
          | Some (Inl trap) \<Rightarrow> False
          | Some (Inr (ret, s')) \<Rightarrow> quiet s0 s')"
proof (induction envs arbitrary: s)
  case Nil
  then show ?case by simp
next
  case (Cons e es)
  let ?s1 = "emit (EvObjectLock obj (g_lock e)) s"
  let ?s2 = "emit (EvWwBackoff (g_backoff e)) ?s1"
  have a: "vm_fault_gtt_attempt cfg e vmf obj s
           = Inr (if g_lock e \<noteq> 0 then g_lock e else - EFAULT, ?s1)"
    by (rule vm_fault_gtt_attempt_readonly [OF Cons.prems(1) assms])
  have q1: "quiet s0 ?s1" using Cons.prems(2) by (simp add: quiet_emit)
  have q2: "quiet s0 ?s2" using q1 by (simp add: quiet_emit)
  have ro2: "is_readonly (objs ?s2 obj)" using Cons.prems(1) by (simp add: emit_def)
  note ih = Cons.IH [OF ro2 q2]
  have nd: "- EFAULT \<noteq> - EDEADLK" by (simp add: errno_defs)
  show ?case
  proof (cases "g_lock e = - EDEADLK")
    case True
    then have nz: "g_lock e \<noteq> 0" by (simp add: errno_defs)
    show ?thesis
    proof (cases "g_backoff e = 0")
      case b: True
      then show ?thesis using a True nz ih by (simp add: Let_def)
    next
      case b: False
      then show ?thesis using a True nz q2 by (simp add: Let_def)
    qed
  next
    case False
    then show ?thesis using a q1 nd by (simp add: Let_def)
  qed
qed

text \<open>Which result the aperture handler gives a write fault on a read-only object.\<close>

lemma vm_fault_gtt_retry_readonly_locked:
  assumes "vm_write vmf" and "g_lock e = 0"
  shows "is_readonly (objs s obj) \<Longrightarrow>
         list_all (\<lambda>x. g_lock x = - EDEADLK \<and> g_backoff x = 0) pre \<Longrightarrow>
         \<exists>s'. vm_fault_gtt_retry cfg vmf obj (pre @ e # es) s = Some (Inr (- EFAULT, s'))"
proof (induction pre arbitrary: s)
  case Nil
  have nd: "- EFAULT \<noteq> - EDEADLK" by (simp add: errno_defs)
  show ?case
    using vm_fault_gtt_attempt_readonly [OF Nil(1) assms(1), of cfg e] assms(2) nd
    by simp
next
  case (Cons x xs)
  have nz: "g_lock x \<noteq> 0" using Cons.prems(2) by (simp add: errno_defs)
  let ?s2 = "emit (EvWwBackoff (g_backoff x)) (emit (EvObjectLock obj (g_lock x)) s)"
  have ro2: "is_readonly (objs ?s2 obj)" using Cons.prems(1) by (simp add: emit_def)
  have "list_all (\<lambda>x. g_lock x = - EDEADLK \<and> g_backoff x = 0) xs" using Cons.prems(2) by simp
  from Cons.IH [OF ro2 this] obtain s' where
    "vm_fault_gtt_retry cfg vmf obj (xs @ e # es) ?s2 = Some (Inr (- EFAULT, s'))" by blast
  then show ?case
    using vm_fault_gtt_attempt_readonly [OF Cons.prems(1) assms(1), of cfg x] nz Cons.prems(2)
    by (simp add: Let_def)
qed

text \<open>
  The error with which the retry loop ends: that of the first attempt that is not a
  deadlock followed by a successful backoff.
\<close>

lemma vm_fault_gtt_retry_readonly_final:
  assumes "vm_write vmf" and "\<not> (g_lock e = - EDEADLK \<and> g_backoff e = 0)"
  shows "is_readonly (objs s obj) \<Longrightarrow>
         list_all (\<lambda>x. g_lock x = - EDEADLK \<and> g_backoff x = 0) pre \<Longrightarrow>
         \<exists>s'. vm_fault_gtt_retry cfg vmf obj (pre @ e # es) s
                 = Some (Inr (if g_lock e = 0 then - EFAULT
                              else if g_lock e = - EDEADLK then g_backoff e
                              else g_lock e, s'))
              \<and> warned_once s' = warned_once s"
proof (induction pre arbitrary: s)
  case Nil
  have nd: "- EFAULT \<noteq> - EDEADLK" by (simp add: errno_defs)
  have nz: "- EDEADLK \<noteq> (0::int)" by (simp add: errno_defs)
  show ?case
    using vm_fault_gtt_attempt_readonly [OF Nil(1) assms(1), of cfg e] assms(2) nd nz
    by (auto simp: Let_def emit_def)
next
  case (Cons x xs)
  have nz: "g_lock x \<noteq> 0" using Cons.prems(2) by (simp add: errno_defs)
  let ?s2 = "emit (EvWwBackoff (g_backoff x)) (emit (EvObjectLock obj (g_lock x)) s)"
  have ro2: "is_readonly (objs ?s2 obj)" using Cons.prems(1) by (simp add: emit_def)
  have w2: "warned_once ?s2 = warned_once s" by (simp add: emit_def)
  have "list_all (\<lambda>x. g_lock x = - EDEADLK \<and> g_backoff x = 0) xs" using Cons.prems(2) by simp
  from Cons.IH [OF ro2 this] obtain s' where
    "vm_fault_gtt_retry cfg vmf obj (xs @ e # es) ?s2
       = Some (Inr (if g_lock e = 0 then - EFAULT
                    else if g_lock e = - EDEADLK then g_backoff e
                    else g_lock e, s'))"
    and "warned_once s' = warned_once ?s2"
    by blast
  then show ?case
    using vm_fault_gtt_attempt_readonly [OF Cons.prems(1) assms(1), of cfg x] nz Cons.prems(2) w2
    by (simp add: Let_def)
qed

text \<open>
  C4 (amended). For a fault with write intent on a read-only object: the direct handler
  returns SIGBUS at once and changes nothing. The aperture handler never traps, and
  whatever it returns, it leaves every object and mapping as it was and its trace holds
  no pinning, binding, fence, remapping or migration step and no filled page-table
  entry; it returns SIGBUS whenever it acquires the object's lock (at once, or after
  any number of deadlock backoffs). In general it returns the translation, by
  \<open>i915_error_to_vmf_fault\<close>, of the error of the first attempt that is not a deadlock
  with a successful backoff: \<open>-EFAULT\<close> when that attempt acquires the lock, the error
  of the backoff when the lock deadlocks and the backoff fails, and the error of the
  lock otherwise.
\<close>

theorem C4_readonly_write_fault_amended:
  assumes ro: "is_readonly (objs s (mmo_obj (mmos s (vm_private_data vmf))))"
    and wr: "vm_write vmf"
  shows "vm_fault_cpu cfg cenvs vmf s = Some (Inr (VM_FAULT_SIGBUS, s))
    \<and> (case vm_fault_gtt cfg genvs vmf s of
          None \<Rightarrow> True
        | Some (Inl trap) \<Rightarrow> False
        | Some (Inr (ret, s')) \<Rightarrow> quiet s s')
    \<and> (\<forall>pre e es.
          list_all (\<lambda>x. g_lock x = - EDEADLK \<and> g_backoff x = 0) pre \<and> g_lock e = 0 \<longrightarrow>
          (\<exists>s'. vm_fault_gtt cfg (pre @ e # es) vmf s = Some (Inr (VM_FAULT_SIGBUS, s'))
                \<and> quiet s s'))
    \<and> (\<forall>pre e es.
          list_all (\<lambda>x. g_lock x = - EDEADLK \<and> g_backoff x = 0) pre
          \<and> \<not> (g_lock e = - EDEADLK \<and> g_backoff e = 0) \<longrightarrow>
          (\<exists>s'. vm_fault_gtt cfg (pre @ e # es) vmf s
                  = Some (Inr (fst (i915_error_to_vmf_fault (warned_once s)
                                      (if g_lock e = 0 then - EFAULT
                                       else if g_lock e = - EDEADLK then g_backoff e
                                       else g_lock e)), s'))
                \<and> quiet s s'))"
proof -
  let ?obj = "mmo_obj (mmos s (vm_private_data vmf))"
  let ?s0 = "emit EvWwInit (emit EvRpmGet s)"
  have cpu: "vm_fault_cpu cfg cenvs vmf s = Some (Inr (VM_FAULT_SIGBUS, s))"
    using ro wr by (simp add: vm_fault_cpu_def Let_def)
  have q0: "quiet s ?s0" by (simp add: quiet_emit quiet_refl)
  have ro0: "is_readonly (objs ?s0 ?obj)" using ro by (simp add: emit_def)
  have gen: "case vm_fault_gtt cfg envs vmf s of
          None \<Rightarrow> True
        | Some (Inl trap) \<Rightarrow> False
        | Some (Inr (ret, s')) \<Rightarrow> quiet s s'" for envs
  proof -
    note R = vm_fault_gtt_retry_readonly [OF wr ro0 q0, of cfg envs]
    show ?thesis
    proof (cases "vm_fault_gtt_retry cfg vmf ?obj envs ?s0")
      case None
      then show ?thesis by (simp add: vm_fault_gtt_def Let_def)
    next
      case (Some r)
      show ?thesis
      proof (cases r)
        case (Inl trap)
        then show ?thesis using R Some by simp
      next
        case (Inr p)
        obtain ret s1 where p: "p = (ret, s1)" by (cases p)
        have "quiet s s1" using R Some Inr p by simp
        then have "quiet s (emit EvRpmPut (emit EvWwFini s1))" by (simp add: quiet_emit)
        then have "quiet s (snd (fault_return ret (emit EvRpmPut (emit EvWwFini s1))))"
          by (rule quiet_fault_return)
        then show ?thesis using Some Inr p
          by (auto simp: vm_fault_gtt_def Let_def split: prod.splits)
      qed
    qed
  qed
  have locked: "\<exists>s'. vm_fault_gtt cfg (pre @ e # es) vmf s = Some (Inr (VM_FAULT_SIGBUS, s'))
                \<and> quiet s s'"
    if h: "list_all (\<lambda>x. g_lock x = - EDEADLK \<and> g_backoff x = 0) pre \<and> g_lock e = 0"
    for pre e es
  proof -
    from vm_fault_gtt_retry_readonly_locked [OF wr _ ro0, of e pre cfg es] h obtain s1 where
      r: "vm_fault_gtt_retry cfg vmf ?obj (pre @ e # es) ?s0 = Some (Inr (- EFAULT, s1))"
      by blast
    have f: "fst (fault_return (- EFAULT) (emit EvRpmPut (emit EvWwFini s1))) = VM_FAULT_SIGBUS"
      by (simp add: fault_return_def i915_error_to_vmf_fault_def Let_def errno_defs)
    obtain ret s' where fr: "fault_return (- EFAULT) (emit EvRpmPut (emit EvWwFini s1)) = (ret, s')"
      by (cases "fault_return (- EFAULT) (emit EvRpmPut (emit EvWwFini s1))")
    have v: "vm_fault_gtt cfg (pre @ e # es) vmf s = Some (Inr (ret, s'))"
      using r fr by (simp add: vm_fault_gtt_def Let_def)
    have rr: "ret = fst (fault_return (- EFAULT) (emit EvRpmPut (emit EvWwFini s1)))"
      using fr by simp
    have "quiet s s'" using gen [of "pre @ e # es"] v by simp
    then show ?thesis using v rr f by simp
  qed
  have final: "\<exists>s'. vm_fault_gtt cfg (pre @ e # es) vmf s
                  = Some (Inr (fst (i915_error_to_vmf_fault (warned_once s)
                                      (if g_lock e = 0 then - EFAULT
                                       else if g_lock e = - EDEADLK then g_backoff e
                                       else g_lock e)), s'))
                \<and> quiet s s'"
    if h: "list_all (\<lambda>x. g_lock x = - EDEADLK \<and> g_backoff x = 0) pre
          \<and> \<not> (g_lock e = - EDEADLK \<and> g_backoff e = 0)"
    for pre e es
  proof -
    let ?err = "if g_lock e = 0 then - EFAULT
                else if g_lock e = - EDEADLK then g_backoff e else g_lock e"
    have h1: "list_all (\<lambda>x. g_lock x = - EDEADLK \<and> g_backoff x = 0) pre"
      and h2: "\<not> (g_lock e = - EDEADLK \<and> g_backoff e = 0)"
      using h by blast+
    from vm_fault_gtt_retry_readonly_final [OF wr h2 ro0 h1, of cfg es] obtain s1 where
      r: "vm_fault_gtt_retry cfg vmf ?obj (pre @ e # es) ?s0 = Some (Inr (?err, s1))"
      and w: "warned_once s1 = warned_once ?s0"
      by blast
    let ?s2 = "emit EvRpmPut (emit EvWwFini s1)"
    have w2: "warned_once ?s2 = warned_once s" using w by (simp add: emit_def)
    have f: "fst (fault_return ?err ?s2) = fst (i915_error_to_vmf_fault (warned_once s) ?err)"
      unfolding fault_return_def Let_def w2 by (simp split: prod.splits)
    obtain ret s' where fr: "fault_return ?err ?s2 = (ret, s')"
      by (cases "fault_return ?err ?s2")
    have v: "vm_fault_gtt cfg (pre @ e # es) vmf s = Some (Inr (ret, s'))"
      using r fr by (simp add: vm_fault_gtt_def Let_def)
    have rr: "ret = fst (i915_error_to_vmf_fault (warned_once s) ?err)"
      using fr f by simp
    have "quiet s s'" using gen [of "pre @ e # es"] v by simp
    then show ?thesis using v rr by blast
  qed
  show ?thesis
  proof (intro conjI allI impI)
    show "vm_fault_cpu cfg cenvs vmf s = Some (Inr (VM_FAULT_SIGBUS, s))" by (rule cpu)
    show "case vm_fault_gtt cfg genvs vmf s of
          None \<Rightarrow> True
        | Some (Inl trap) \<Rightarrow> False
        | Some (Inr (ret, s')) \<Rightarrow> quiet s s'" by (rule gen)
  next
    fix pre es :: "gtt_env list" and e :: gtt_env
    assume "list_all (\<lambda>x. g_lock x = - EDEADLK \<and> g_backoff x = 0) pre \<and> g_lock e = 0"
    then show "\<exists>s'. vm_fault_gtt cfg (pre @ e # es) vmf s = Some (Inr (VM_FAULT_SIGBUS, s'))
                \<and> quiet s s'" by (rule locked)
  next
    fix pre es :: "gtt_env list" and e :: gtt_env
    assume "list_all (\<lambda>x. g_lock x = - EDEADLK \<and> g_backoff x = 0) pre
          \<and> \<not> (g_lock e = - EDEADLK \<and> g_backoff e = 0)"
    then show "\<exists>s'. vm_fault_gtt cfg (pre @ e # es) vmf s
                  = Some (Inr (fst (i915_error_to_vmf_fault (warned_once s)
                                      (if g_lock e = 0 then - EFAULT
                                       else if g_lock e = - EDEADLK then g_backoff e
                                       else g_lock e)), s'))
                \<and> quiet s s'" by (rule final)
  qed
qed

lemmas gtt_defs = vm_fault_gtt_def vm_fault_gtt_attempt_def vm_fault_gtt_bind_def
  vm_fault_gtt_map_def i915_gem_object_ggtt_pin_ww_def pin_failed_not_deadlk_def
  mark_userfault_def gtt_err_pages_def gtt_err_reset_def gtt_err_unpin_def gtt_err_fence_def
  i915_gem_object_pin_pages_sync_def i915_gem_object_unpin_pages_def
  i915_gem_object_has_pinned_pages_def fault_return_def i915_error_to_vmf_fault_def
  emit_def upd_obj_def upd_vma_def

lemmas fixture4_defs = readonly_state_def writable_state_def write_fault_def good_gtt_env_def
  interrupted_gtt_env_def idle_state_def small_obj_def shmem_object_def idle_vma_def
  idle_region_def test_config_def

text \<open>
  C4, as stated, fails on the aperture path: the read-only check comes after
  \<open>i915_gem_object_lock\<close>, and when the lock is interrupted by a signal the write
  fault on the read-only object returns the retryable no-page outcome, not SIGBUS.
\<close>

theorem C4_interrupted_lock_counterexample:
  "is_readonly (objs readonly_state (mmo_obj (mmos readonly_state (vm_private_data write_fault))))
   \<and> vm_write write_fault
   \<and> (case vm_fault_gtt test_config [interrupted_gtt_env] write_fault readonly_state of
         Some (Inr (ret, s')) \<Rightarrow>
           ret = VM_FAULT_NOPAGE
           \<and> trace s' = [EvRpmGet, EvWwInit, EvObjectLock 3 (- EINTR), EvWwFini, EvRpmPut]
       | _ \<Rightarrow> False)"
  by (simp add: gtt_defs fixture4_defs Let_def errno_defs)

text \<open>
  The model does fill page-table entries when the object is writable: the same fault in
  the same environment maps 16 pages and registers the object for revocation.
\<close>

lemma vm_fault_gtt_writable_eval:
  "(case vm_fault_gtt test_config [good_gtt_env] write_fault writable_state of
      Some (Inr (ret, s')) \<Rightarrow>
        ret = VM_FAULT_NOPAGE
        \<and> trace s' = [EvRpmGet, EvWwInit, EvObjectLock 3 0, EvPinPages 3 0, EvResetLock 0,
             EvGgttPin None {PIN_OFFSET_GUARD_4K, PIN_MAPPABLE, PIN_NONBLOCK, PIN_NOEVICT} (Inr 20),
             EvPinFence 20 0, EvRemapIoMapping 0x7f0000000000 0 0x10000 0,
             EvWakerefAuto 250, EvUnpinFence 20, EvVmaUnpin 20, EvResetUnlock, EvUnpinPages 3,
             EvWwFini, EvRpmPut]
        \<and> userfault_count (objs s' 3) = 1 \<and> userfault_list s' = [3]
        \<and> vma_userfault (vmas s' 20) \<and> vma_ggtt_write (vmas s' 20)
        \<and> vma_mmo (vmas s' 20) = Some 0 \<and> vma_list (objs s' 3) = [20]
    | _ \<Rightarrow> False)"
  by (simp add: gtt_defs fixture4_defs Let_def errno_defs)

text \<open>
  The write fault on the read-only object: with the lock acquired, both handlers; and
  on the aperture path with the lock interrupted, where the translation of \<open>-EINTR\<close>
  is the no-page outcome.
\<close>

theorem C4_readonly_write_fault_amended_witness:
  "is_readonly (objs readonly_state (mmo_obj (mmos readonly_state (vm_private_data write_fault))))
   \<and> vm_write write_fault
   \<and> list_all (\<lambda>x. g_lock x = - EDEADLK \<and> g_backoff x = 0) []
   \<and> g_lock good_gtt_env = 0
   \<and> \<not> (g_lock interrupted_gtt_env = - EDEADLK \<and> g_backoff interrupted_gtt_env = 0)
   \<and> vm_fault_cpu test_config [good_cpu_env] write_fault readonly_state
        = Some (Inr (VM_FAULT_SIGBUS, readonly_state))
   \<and> (\<exists>s'. vm_fault_gtt test_config [good_gtt_env] write_fault readonly_state
               = Some (Inr (VM_FAULT_SIGBUS, s'))
          \<and> quiet readonly_state s'
          \<and> trace s' = [EvRpmGet, EvWwInit, EvObjectLock 3 0, EvWwFini, EvRpmPut])
   \<and> (\<exists>s'. vm_fault_gtt test_config [interrupted_gtt_env] write_fault readonly_state
               = Some (Inr (VM_FAULT_NOPAGE, s'))
          \<and> quiet readonly_state s')"
proof -
  have h1: "is_readonly (objs readonly_state (mmo_obj (mmos readonly_state (vm_private_data write_fault))))"
    by (simp add: fixture4_defs)
  have h2: "vm_write write_fault" by (simp add: fixture4_defs)
  have h3: "list_all (\<lambda>x. g_lock x = - EDEADLK \<and> g_backoff x = 0) []" by simp
  have h4: "g_lock good_gtt_env = 0" by (simp add: fixture4_defs)
  have gl: "g_lock interrupted_gtt_env = - EINTR" by (simp add: fixture4_defs)
  have h5: "\<not> (g_lock interrupted_gtt_env = - EDEADLK \<and> g_backoff interrupted_gtt_env = 0)"
    by (simp add: gl errno_defs)
  note T = C4_readonly_write_fault_amended [OF h1 h2, where cfg=test_config
      and cenvs="[good_cpu_env]" and genvs="[good_gtt_env]"]
  have a: "vm_fault_cpu test_config [good_cpu_env] write_fault readonly_state
        = Some (Inr (VM_FAULT_SIGBUS, readonly_state))"
    using T by (rule conjunct1)
  have "\<exists>s'. vm_fault_gtt test_config ([] @ good_gtt_env # []) write_fault readonly_state
                   = Some (Inr (VM_FAULT_SIGBUS, s'))
                \<and> quiet readonly_state s'"
    using T [THEN conjunct2, THEN conjunct2, THEN conjunct1, rule_format,
             of "[]" good_gtt_env "[]"] h3 h4
    by blast
  then obtain s' where
    v: "vm_fault_gtt test_config [good_gtt_env] write_fault readonly_state
          = Some (Inr (VM_FAULT_SIGBUS, s'))" and q: "quiet readonly_state s'"
    by auto
  have "case vm_fault_gtt test_config [good_gtt_env] write_fault readonly_state of
         Some (Inr (ret, s')) \<Rightarrow>
           trace s' = [EvRpmGet, EvWwInit, EvObjectLock 3 0, EvWwFini, EvRpmPut]
       | _ \<Rightarrow> False"
    by (simp add: gtt_defs fixture4_defs Let_def errno_defs)
  then have t: "trace s' = [EvRpmGet, EvWwInit, EvObjectLock 3 0, EvWwFini, EvRpmPut]"
    using v by simp
  have tr: "fst (i915_error_to_vmf_fault (warned_once readonly_state)
                   (if g_lock interrupted_gtt_env = 0 then - EFAULT
                    else if g_lock interrupted_gtt_env = - EDEADLK
                         then g_backoff interrupted_gtt_env
                    else g_lock interrupted_gtt_env)) = VM_FAULT_NOPAGE"
    unfolding gl by (simp add: i915_error_to_vmf_fault_def errno_defs)
  have "\<exists>s'. vm_fault_gtt test_config ([] @ interrupted_gtt_env # []) write_fault readonly_state
               = Some (Inr (fst (i915_error_to_vmf_fault (warned_once readonly_state)
                   (if g_lock interrupted_gtt_env = 0 then - EFAULT
                    else if g_lock interrupted_gtt_env = - EDEADLK
                         then g_backoff interrupted_gtt_env
                    else g_lock interrupted_gtt_env)), s'))
          \<and> quiet readonly_state s'"
    using T [THEN conjunct2, THEN conjunct2, THEN conjunct2, rule_format,
             of "[]" interrupted_gtt_env "[]"] h3 h5
    by blast
  then have i: "\<exists>s'. vm_fault_gtt test_config [interrupted_gtt_env] write_fault readonly_state
               = Some (Inr (VM_FAULT_NOPAGE, s'))
          \<and> quiet readonly_state s'"
    unfolding tr by simp
  from h1 h2 h3 h4 h5 a v q t i show ?thesis by blast
qed
subsection \<open>Migration at fault time\<close>


lemmas cpu_defs = vm_fault_cpu_def vm_fault_cpu_window_def vm_fault_cpu_body_def
  vm_fault_cpu_migrate_def vm_fault_cpu_populate_def vm_fault_cpu_out_def i915_gem_ww_fini_def
  i915_gem_object_migrate_to_smem_def i915_gem_object_has_segments_def
  i915_gem_object_has_pinned_pages_def i915_gem_object_pin_pages_sync_def
  i915_gem_object_unpin_pages_def fault_return_def i915_error_to_vmf_fault_def
  use_swapto_def create_swapto_def drm_vma_node_start_def emit_def upd_obj_def

lemmas fixture5_defs = pinned_lmem_state_def unpinned_lmem_state_def lmem_state_def lmem_obj_def
  plain_config_def test_config_def required_migrate_env_def optional_migrate_env_def
  deadlock_migrate_env_def good_cpu_env_def write_fault_def idle_state_def small_obj_def
  shmem_object_def idle_vma_def idle_region_def drm_vma_node_reset_def


text \<open>The whole handler on the two cases of the claim, on the pinned object.\<close>

lemma vm_fault_cpu_required_pinned_eval:
  "(case vm_fault_cpu plain_config [required_migrate_env] write_fault pinned_lmem_state of
      Some (Inr (ret, s')) \<Rightarrow>
        ret = VM_FAULT_SIGBUS
        \<and> trace s' = [EvWwInit, EvObjectLock 3 0, EvWwFini, EvWakeUpVar]
    | _ \<Rightarrow> False)"
  by (simp add: cpu_defs fixture5_defs Let_def errno_defs)

lemma vm_fault_cpu_optional_eval:
  "(case vm_fault_cpu plain_config [optional_migrate_env] write_fault unpinned_lmem_state of
      Some (Inr (ret, s')) \<Rightarrow>
        ret = VM_FAULT_NOPAGE
        \<and> trace s' = [EvWwInit, EvObjectLock 3 0, EvMigrateToSmem 3 (- EBUSY), EvPinPages 3 0,
                       EvRemapIoSg 3 0x7f0000000000 0x10000 0 0 0, EvUnpinPages 3,
                       EvWwFini, EvWakeUpVar]
    | _ \<Rightarrow> False)"
  by (simp add: cpu_defs fixture5_defs Let_def errno_defs)


subsection \<open>Revocation\<close>

lemma filter_mark_one:
  "distinct vs \<Longrightarrow> v \<in> set vs \<Longrightarrow> \<not> P v
     \<Longrightarrow> length (filter (\<lambda>x. x = v \<or> P x) vs) = Suc (length (filter P vs))"
proof (induction vs)
  case Nil
  then show ?case by simp
next
  case (Cons a vs)
  show ?case
  proof (cases "a = v")
    case True
    with Cons.prems have "v \<notin> set vs" by simp
    then have "filter (\<lambda>x. x = v \<or> P x) vs = filter P vs"
      by (intro filter_cong) auto
    with True Cons.prems show ?thesis by simp
  next
    case False
    with Cons show ?thesis by simp
  qed
qed

lemma filter_clear_one:
  "v \<notin> set vs \<Longrightarrow> filter (\<lambda>x. x \<noteq> v \<and> P x) vs = filter P vs"
  by (intro filter_cong) auto

lemma i915_vma_revoke_mmap_unflagged:
  "\<not> vma_userfault (vmas s v) \<Longrightarrow> i915_vma_revoke_mmap obj v s = Inr s"
  by (simp add: i915_vma_revoke_mmap_def)

lemma i915_vma_revoke_mmap_flagged:
  assumes "vma_userfault (vmas s v)" and "userfault_count (objs s obj) = Suc n"
    and "vma_mmo (vmas s v) = Some m"
  shows "\<exists>s1. i915_vma_revoke_mmap obj v s = Inr s1
           \<and> vmas s1 = (vmas s)(v := (vmas s v) \<lparr> vma_userfault := False \<rparr>)
           \<and> userfault_count (objs s1 obj) = n
           \<and> vma_list (objs s1 obj) = vma_list (objs s obj)
           \<and> userfault_list s1
               = (if n = 0 then remove1 obj (userfault_list s) else userfault_list s)
           \<and> trace s1 = trace s @
               [EvUnmapNodeRange m
                  (drm_vma_node_offset_addr (vma_node (mmos s m))
                     + push_bit PAGE_SHIFT (partial_offset (ggtt_view (vmas s v))))
                  (vma_size (vmas s v))]"
  using assms
  by (simp add: i915_vma_revoke_mmap_def Let_def emit_def upd_vma_def upd_obj_def)

lemma revoke_all_ok:
  "distinct vs
   \<Longrightarrow> userfault_count (objs s obj) = length (filter (\<lambda>v. vma_userfault (vmas s v)) vs)
   \<Longrightarrow> \<forall>v\<in>set vs. vma_userfault (vmas s v) \<longrightarrow> vma_mmo (vmas s v) \<noteq> None
   \<Longrightarrow> \<exists>s'. revoke_all obj vs s = Inr s'
          \<and> userfault_count (objs s' obj) = 0
          \<and> (\<forall>v. vma_userfault (vmas s' v) = (v \<notin> set vs \<and> vma_userfault (vmas s v)))
          \<and> (\<forall>v. vma_is_ggtt (vmas s' v) = vma_is_ggtt (vmas s v))
          \<and> (\<forall>v. vma_mmo (vmas s' v) = vma_mmo (vmas s v))
          \<and> vma_list (objs s' obj) = vma_list (objs s obj)
          \<and> userfault_list s'
              = (if userfault_count (objs s obj) = 0 then userfault_list s
                 else remove1 obj (userfault_list s))"
proof (induction vs arbitrary: s)
  case Nil
  then show ?case by simp
next
  case (Cons v vs)
  have dv: "v \<notin> set vs" and dvs: "distinct vs" using Cons.prems(1) by simp_all
  show ?case
  proof (cases "vma_userfault (vmas s v)")
    case False
    have r: "i915_vma_revoke_mmap obj v s = Inr s"
      using False by (rule i915_vma_revoke_mmap_unflagged)
    have c: "userfault_count (objs s obj)
               = length (filter (\<lambda>v. vma_userfault (vmas s v)) vs)"
      using Cons.prems(2) False by simp
    have m: "\<forall>v\<in>set vs. vma_userfault (vmas s v) \<longrightarrow> vma_mmo (vmas s v) \<noteq> None"
      using Cons.prems(3) by simp
    from Cons.IH [OF dvs c m] obtain s' where
      s': "revoke_all obj vs s = Inr s'" "userfault_count (objs s' obj) = 0"
          "\<forall>v. vma_userfault (vmas s' v) = (v \<notin> set vs \<and> vma_userfault (vmas s v))"
          "\<forall>v. vma_is_ggtt (vmas s' v) = vma_is_ggtt (vmas s v)"
          "\<forall>v. vma_mmo (vmas s' v) = vma_mmo (vmas s v)"
          "vma_list (objs s' obj) = vma_list (objs s obj)"
          "userfault_list s'
              = (if userfault_count (objs s obj) = 0 then userfault_list s
                 else remove1 obj (userfault_list s))"
      by blast
    have "revoke_all obj (v # vs) s = Inr s'" using r s'(1) by simp
    moreover have "\<forall>w. vma_userfault (vmas s' w)
                        = (w \<notin> set (v # vs) \<and> vma_userfault (vmas s w))"
      using s'(3) False by auto
    ultimately show ?thesis using s'(2,4,5,6,7) by blast
  next
    case True
    then obtain n where n: "userfault_count (objs s obj) = Suc n"
        and n': "n = length (filter (\<lambda>v. vma_userfault (vmas s v)) vs)"
      using Cons.prems(2) by simp
    from True Cons.prems(3) obtain m where m: "vma_mmo (vmas s v) = Some m" by auto
    from i915_vma_revoke_mmap_flagged [OF True n m] obtain s1 where
      s1: "i915_vma_revoke_mmap obj v s = Inr s1"
          "vmas s1 = (vmas s)(v := (vmas s v) \<lparr> vma_userfault := False \<rparr>)"
          "userfault_count (objs s1 obj) = n"
          "vma_list (objs s1 obj) = vma_list (objs s obj)"
          "userfault_list s1
               = (if n = 0 then remove1 obj (userfault_list s) else userfault_list s)"
      by blast
    have same: "\<And>w. w \<in> set vs \<Longrightarrow> vmas s1 w = vmas s w"
      using dv s1(2) by auto
    have "filter (\<lambda>v. vma_userfault (vmas s1 v)) vs
            = filter (\<lambda>v. vma_userfault (vmas s v)) vs"
      by (intro filter_cong) (simp_all add: same)
    then have c: "userfault_count (objs s1 obj)
               = length (filter (\<lambda>v. vma_userfault (vmas s1 v)) vs)"
      using s1(3) n' by simp
    have mm: "\<forall>v\<in>set vs. vma_userfault (vmas s1 v) \<longrightarrow> vma_mmo (vmas s1 v) \<noteq> None"
      using Cons.prems(3) same by simp
    from Cons.IH [OF dvs c mm] obtain s' where
      s': "revoke_all obj vs s1 = Inr s'" "userfault_count (objs s' obj) = 0"
          "\<forall>v. vma_userfault (vmas s' v) = (v \<notin> set vs \<and> vma_userfault (vmas s1 v))"
          "\<forall>v. vma_is_ggtt (vmas s' v) = vma_is_ggtt (vmas s1 v)"
          "\<forall>v. vma_mmo (vmas s' v) = vma_mmo (vmas s1 v)"
          "vma_list (objs s' obj) = vma_list (objs s1 obj)"
          "userfault_list s'
              = (if userfault_count (objs s1 obj) = 0 then userfault_list s1
                 else remove1 obj (userfault_list s1))"
      by blast
    have a: "revoke_all obj (v # vs) s = Inr s'" using s1(1) s'(1) by simp
    have b: "\<forall>w. vma_userfault (vmas s' w)
                        = (w \<notin> set (v # vs) \<and> vma_userfault (vmas s w))"
      using s'(3) s1(2) by auto
    have c': "\<forall>w. vma_is_ggtt (vmas s' w) = vma_is_ggtt (vmas s w)"
      using s'(4) s1(2) by auto
    have d: "\<forall>w. vma_mmo (vmas s' w) = vma_mmo (vmas s w)"
      using s'(5) s1(2) by auto
    have e: "vma_list (objs s' obj) = vma_list (objs s obj)"
      using s'(6) s1(4) by simp
    have f: "userfault_list s'
              = (if userfault_count (objs s obj) = 0 then userfault_list s
                 else remove1 obj (userfault_list s))"
      using s'(7) s1(3,5) n by (cases "n = 0") simp_all
    show ?thesis using a s'(2) b c' d e f by blast
  qed
qed

lemma ggtt_vmas_emit [simp]: "ggtt_vmas obj (emit ev s) = ggtt_vmas obj s"
  by (simp add: ggtt_vmas_def emit_def)

lemma userfault_ok_emit [simp]: "userfault_ok obj (emit ev s) = userfault_ok obj s"
  by (simp add: userfault_ok_def emit_def ggtt_vmas_def)

lemma distinct_ggtt_vmas:
  "distinct (vma_list (objs s obj)) \<Longrightarrow> distinct (ggtt_vmas obj s)"
  unfolding ggtt_vmas_def by (rule distinct_takeWhile)

lemma release_mmap_gtt_idle:
  "userfault_count (objs s obj) = 0
   \<Longrightarrow> i915_gem_object_release_mmap_gtt obj s = Inr (emit EvRpmPut (emit EvRpmGet s))"
  by (simp add: i915_gem_object_release_mmap_gtt_def Let_def emit_def)

lemma release_mmap_gtt_busy:
  assumes ok: "userfault_ok obj s" and busy: "userfault_count (objs s obj) \<noteq> 0"
  shows "\<exists>s'. revoke_all obj (ggtt_vmas obj s) (emit EvRpmGet s) = Inr s'
           \<and> i915_gem_object_release_mmap_gtt obj s = Inr (emit EvRpmPut (emit EvWmb s'))
           \<and> userfault_count (objs s' obj) = 0
           \<and> (\<forall>v. vma_userfault (vmas s' v)
                    = (v \<notin> set (ggtt_vmas obj s) \<and> vma_userfault (vmas s v)))
           \<and> (\<forall>v. vma_is_ggtt (vmas s' v) = vma_is_ggtt (vmas s v))
           \<and> (\<forall>v. vma_mmo (vmas s' v) = vma_mmo (vmas s v))
           \<and> vma_list (objs s' obj) = vma_list (objs s obj)
           \<and> userfault_list s' = remove1 obj (userfault_list s)"
proof -
  let ?s0 = "emit EvRpmGet s"
  have d: "distinct (ggtt_vmas obj s)"
    using ok by (simp add: userfault_ok_def distinct_ggtt_vmas)
  have c: "userfault_count (objs ?s0 obj)
             = length (filter (\<lambda>v. vma_userfault (vmas ?s0 v)) (ggtt_vmas obj s))"
    using ok by (simp add: userfault_ok_def emit_def)
  have m: "\<forall>v\<in>set (ggtt_vmas obj s).
             vma_userfault (vmas ?s0 v) \<longrightarrow> vma_mmo (vmas ?s0 v) \<noteq> None"
    using ok by (simp add: userfault_ok_def emit_def list_all_iff)
  from revoke_all_ok [OF d c m] obtain s' where
    s': "revoke_all obj (ggtt_vmas obj s) ?s0 = Inr s'" "userfault_count (objs s' obj) = 0"
        "\<forall>v. vma_userfault (vmas s' v)
               = (v \<notin> set (ggtt_vmas obj s) \<and> vma_userfault (vmas ?s0 v))"
        "\<forall>v. vma_is_ggtt (vmas s' v) = vma_is_ggtt (vmas ?s0 v)"
        "\<forall>v. vma_mmo (vmas s' v) = vma_mmo (vmas ?s0 v)"
        "vma_list (objs s' obj) = vma_list (objs ?s0 obj)"
        "userfault_list s'
           = (if userfault_count (objs ?s0 obj) = 0 then userfault_list ?s0
              else remove1 obj (userfault_list ?s0))"
    by blast
  have busy0: "userfault_count (objs ?s0 obj) \<noteq> 0" using busy by (simp add: emit_def)
  have r: "i915_gem_object_release_mmap_gtt obj s = Inr (emit EvRpmPut (emit EvWmb s'))"
    using busy0 s'(1,2)
    by (simp add: i915_gem_object_release_mmap_gtt_def
          dunder_i915_gem_object_release_mmap_gtt_def Let_def)
  have l: "userfault_list s' = remove1 obj (userfault_list s)"
    using s'(7) busy0 by (simp add: emit_def)
  show ?thesis
    using s'(1) r s'(2) s'(3-6) l by (simp add: emit_def)
qed

lemma userfault_ok_released:
  assumes ok: "userfault_ok obj s"
    and c: "userfault_count (objs s' obj) = 0"
    and f: "\<forall>v. vma_userfault (vmas s' v)
                    = (v \<notin> set (ggtt_vmas obj s) \<and> vma_userfault (vmas s v))"
    and g: "\<forall>v. vma_is_ggtt (vmas s' v) = vma_is_ggtt (vmas s v)"
    and l: "vma_list (objs s' obj) = vma_list (objs s obj)"
    and u: "userfault_list s' = remove1 obj (userfault_list s)"
  shows "userfault_ok obj s' \<and> obj \<notin> set (userfault_list s')"
proof -
  have gv: "ggtt_vmas obj s' = ggtt_vmas obj s"
    using g l by (simp add: ggtt_vmas_def)
  have d: "distinct (userfault_list s)" using ok by (simp add: userfault_ok_def)
  have nf: "filter (\<lambda>v. vma_userfault (vmas s' v)) (ggtt_vmas obj s) = []"
    using f by (simp add: filter_empty_conv)
  have out: "obj \<notin> set (userfault_list s')" using u d by simp
  have "distinct (userfault_list s')" using u d by simp
  moreover have "distinct (vma_list (objs s' obj))"
    using ok l by (simp add: userfault_ok_def)
  moreover have "list_all (\<lambda>v. vma_userfault (vmas s' v) \<longrightarrow> vma_mmo (vmas s' v) \<noteq> None)
                   (ggtt_vmas obj s')"
    using f gv by (simp add: list_all_iff)
  ultimately have "userfault_ok obj s'"
    using c nf gv out by (simp add: userfault_ok_def)
  then show ?thesis using out by simp
qed

text \<open>
  C8. For an object whose userfault bookkeeping is consistent, whatever its count,
  \<open>i915_gem_object_release_mmap_gtt\<close> returns without a trap, leaves the count at
  exactly 0, no mapping of the object with the userfault bit, and the object off the
  revocation list; the bookkeeping is consistent again. A second call returns on the
  early path: it takes and drops the wakeref and changes nothing else, so it revokes
  nothing and lowers no count.
\<close>

theorem C8_release_mmap_gtt_idempotent:
  assumes "userfault_ok obj s"
  shows "\<exists>s1. i915_gem_object_release_mmap_gtt obj s = Inr s1
           \<and> userfault_count (objs s1 obj) = 0
           \<and> obj \<notin> set (userfault_list s1)
           \<and> (\<forall>v \<in> set (ggtt_vmas obj s1). \<not> vma_userfault (vmas s1 v))
           \<and> userfault_ok obj s1
           \<and> i915_gem_object_release_mmap_gtt obj s1
               = Inr (emit EvRpmPut (emit EvRpmGet s1))
           \<and> (\<exists>s2. i915_gem_object_release_mmap_gtt obj s1 = Inr s2
                  \<and> objs s2 = objs s1 \<and> vmas s2 = vmas s1 \<and> mmos s2 = mmos s1
                  \<and> userfault_list s2 = userfault_list s1
                  \<and> trace s2 = trace s1 @ [EvRpmGet, EvRpmPut])"
proof -
  have core: "\<exists>s1. i915_gem_object_release_mmap_gtt obj s = Inr s1
           \<and> userfault_count (objs s1 obj) = 0
           \<and> obj \<notin> set (userfault_list s1)
           \<and> (\<forall>v \<in> set (ggtt_vmas obj s1). \<not> vma_userfault (vmas s1 v))
           \<and> userfault_ok obj s1"
  proof (cases "userfault_count (objs s obj) = 0")
    case True
    let ?s1 = "emit EvRpmPut (emit EvRpmGet s)"
    have r: "i915_gem_object_release_mmap_gtt obj s = Inr ?s1"
      using True by (rule release_mmap_gtt_idle)
    have nolist: "obj \<notin> set (userfault_list s)"
      using assms True by (simp add: userfault_ok_def)
    have "filter (\<lambda>v. vma_userfault (vmas s v)) (ggtt_vmas obj s) = []"
      using assms True by (simp add: userfault_ok_def)
    then have nf: "\<forall>v \<in> set (ggtt_vmas obj s). \<not> vma_userfault (vmas s v)"
      by (simp add: filter_empty_conv)
    have "userfault_count (objs ?s1 obj) = 0" using True by (simp add: emit_def)
    moreover have "obj \<notin> set (userfault_list ?s1)" using nolist by (simp add: emit_def)
    moreover have "\<forall>v \<in> set (ggtt_vmas obj ?s1). \<not> vma_userfault (vmas ?s1 v)"
      using nf by (simp add: ggtt_vmas_def emit_def)
    moreover have "userfault_ok obj ?s1" using assms by simp
    ultimately show ?thesis using r by blast
  next
    case False
    from release_mmap_gtt_busy [OF assms False] obtain s' where
      s': "i915_gem_object_release_mmap_gtt obj s = Inr (emit EvRpmPut (emit EvWmb s'))"
          "userfault_count (objs s' obj) = 0"
          "\<forall>v. vma_userfault (vmas s' v)
                    = (v \<notin> set (ggtt_vmas obj s) \<and> vma_userfault (vmas s v))"
          "\<forall>v. vma_is_ggtt (vmas s' v) = vma_is_ggtt (vmas s v)"
          "vma_list (objs s' obj) = vma_list (objs s obj)"
          "userfault_list s' = remove1 obj (userfault_list s)"
      by blast
    let ?s1 = "emit EvRpmPut (emit EvWmb s')"
    from userfault_ok_released [OF assms s'(2-6)]
    have ok': "userfault_ok obj s'" and out: "obj \<notin> set (userfault_list s')" by simp_all
    have gv: "ggtt_vmas obj s' = ggtt_vmas obj s"
      using s'(4,5) by (simp add: ggtt_vmas_def)
    have "userfault_count (objs ?s1 obj) = 0" using s'(2) by (simp add: emit_def)
    moreover have "obj \<notin> set (userfault_list ?s1)" using out by (simp add: emit_def)
    moreover have "\<forall>v \<in> set (ggtt_vmas obj ?s1). \<not> vma_userfault (vmas ?s1 v)"
      using s'(3) gv by (simp add: ggtt_vmas_def emit_def)
    moreover have "userfault_ok obj ?s1" using ok' by simp
    ultimately show ?thesis using s'(1) by blast
  qed
  then obtain s1 where
    s1: "i915_gem_object_release_mmap_gtt obj s = Inr s1"
        "userfault_count (objs s1 obj) = 0"
        "obj \<notin> set (userfault_list s1)"
        "\<forall>v \<in> set (ggtt_vmas obj s1). \<not> vma_userfault (vmas s1 v)"
        "userfault_ok obj s1"
    by blast
  have again: "i915_gem_object_release_mmap_gtt obj s1
                 = Inr (emit EvRpmPut (emit EvRpmGet s1))"
    using s1(2) by (rule release_mmap_gtt_idle)
  have "\<exists>s2. i915_gem_object_release_mmap_gtt obj s1 = Inr s2
                  \<and> objs s2 = objs s1 \<and> vmas s2 = vmas s1 \<and> mmos s2 = mmos s1
                  \<and> userfault_list s2 = userfault_list s1
                  \<and> trace s2 = trace s1 @ [EvRpmGet, EvRpmPut]"
    using again by (simp add: emit_def)
  with s1 again show ?thesis by blast
qed

lemmas release_defs =
  i915_gem_object_release_mmap_gtt_def dunder_i915_gem_object_release_mmap_gtt_def
  i915_vma_revoke_mmap_def ggtt_vmas_def drm_vma_node_offset_addr_def
  drm_vma_node_start_def PAGE_SHIFT_def emit_def upd_vma_def upd_obj_def

lemmas fixture6_defs =
  mapped_state_def idle_state_def idle_vma_def small_obj_def shmem_object_def

lemma mapped_state_ok: "userfault_ok 3 mapped_state"
  by (simp add: userfault_ok_def ggtt_vmas_def fixture6_defs)

lemma mapped_state_release_eval:
  "\<exists>s1. i915_gem_object_release_mmap_gtt 3 mapped_state = Inr s1
      \<and> trace s1 = [EvRpmGet,
                     EvUnmapNodeRange 0 0x100000000 0x8000,
                     EvUnmapNodeRange 0 0x100008000 0x8000,
                     EvWmb, EvRpmPut]"
  by (simp add: release_defs fixture6_defs Let_def)

text \<open>
  The scenario: the object with a count of 2, on the revocation list, is released;
  the count is 0 and the list no longer has it.
\<close>

theorem C8_release_mmap_gtt_idempotent_witness:
  "userfault_ok 3 mapped_state
   \<and> userfault_count (objs mapped_state 3) = 2
   \<and> 3 \<in> set (userfault_list mapped_state)
   \<and> (\<exists>s1. i915_gem_object_release_mmap_gtt 3 mapped_state = Inr s1
          \<and> userfault_count (objs s1 3) = 0
          \<and> 3 \<notin> set (userfault_list s1)
          \<and> i915_gem_object_release_mmap_gtt 3 s1 = Inr (emit EvRpmPut (emit EvRpmGet s1)))"
proof -
  have ok: "userfault_ok 3 mapped_state"
    by (simp add: userfault_ok_def ggtt_vmas_def fixture6_defs)
  have c: "userfault_count (objs mapped_state 3) = 2"
    by (simp add: fixture6_defs)
  have l: "3 \<in> set (userfault_list mapped_state)"
    by (simp add: fixture6_defs)
  from C8_release_mmap_gtt_idempotent [OF ok]
  have "\<exists>s1. i915_gem_object_release_mmap_gtt 3 mapped_state = Inr s1
          \<and> userfault_count (objs s1 3) = 0
          \<and> 3 \<notin> set (userfault_list s1)
          \<and> i915_gem_object_release_mmap_gtt 3 s1 = Inr (emit EvRpmPut (emit EvRpmGet s1))"
    by blast
  with ok c l show ?thesis by blast
qed

text \<open>
  The registration in \<open>vm_fault_gtt\<close> (the userfault block, then \<open>vma->mmo = mmo\<close>)
  keeps the userfault invariant of the faulting object.
\<close>

lemma mark_userfault_keeps_ok:
  assumes ok: "userfault_ok obj s" and v: "v \<in> set (ggtt_vmas obj s)"
  shows "userfault_ok obj
           (upd_vma v (\<lambda>x. x \<lparr> vma_mmo := Some m \<rparr>) (mark_userfault obj v s))"
proof -
  let ?s' = "upd_vma v (\<lambda>x. x \<lparr> vma_mmo := Some m \<rparr>) (mark_userfault obj v s)"
  have dl: "distinct (vma_list (objs s obj))" and du: "distinct (userfault_list s)"
    and cnt: "userfault_count (objs s obj)
                = length (filter (\<lambda>v. vma_userfault (vmas s v)) (ggtt_vmas obj s))"
    and mm: "\<forall>w\<in>set (ggtt_vmas obj s). vma_userfault (vmas s w) \<longrightarrow> vma_mmo (vmas s w) \<noteq> None"
    and li: "obj \<in> set (userfault_list s) \<longleftrightarrow> 0 < userfault_count (objs s obj)"
    using ok by (simp_all add: userfault_ok_def list_all_iff)
  have dg: "distinct (ggtt_vmas obj s)" using dl by (rule distinct_ggtt_vmas)
  have ig: "(\<lambda>w. vma_is_ggtt (vmas ?s' w)) = (\<lambda>w. vma_is_ggtt (vmas s w))"
    by (rule ext) (simp add: mark_userfault_def upd_vma_def upd_obj_def Let_def)
  have vl0: "vma_list (objs ?s' obj) = vma_list (objs s obj)"
    by (simp add: mark_userfault_def upd_vma_def upd_obj_def Let_def)
  have gv: "ggtt_vmas obj ?s' = ggtt_vmas obj s"
    unfolding ggtt_vmas_def ig vl0 ..
  have vl: "vma_list (objs ?s' obj) = vma_list (objs s obj)"
    by (simp add: mark_userfault_def upd_vma_def upd_obj_def Let_def)
  have fl: "\<And>w. vma_userfault (vmas ?s' w) = (w = v \<or> vma_userfault (vmas s w))"
    by (simp add: mark_userfault_def upd_vma_def upd_obj_def Let_def)
  have mo: "\<And>w. vma_mmo (vmas ?s' w) = (if w = v then Some m else vma_mmo (vmas s w))"
    by (simp add: mark_userfault_def upd_vma_def upd_obj_def Let_def)
  show ?thesis
  proof (cases "vma_userfault (vmas s v)")
    case True
    have c': "userfault_count (objs ?s' obj) = userfault_count (objs s obj)"
      using True by (simp add: mark_userfault_def upd_vma_def upd_obj_def Let_def)
    have u': "userfault_list ?s' = userfault_list s"
      using True by (simp add: mark_userfault_def upd_vma_def upd_obj_def Let_def)
    have "filter (\<lambda>w. w = v \<or> vma_userfault (vmas s w)) (ggtt_vmas obj s)
            = filter (\<lambda>w. vma_userfault (vmas s w)) (ggtt_vmas obj s)"
      using True by (intro filter_cong) auto
    then show ?thesis
      using c' u' cnt mm li dl du
      by (simp add: userfault_ok_def gv vl fl mo list_all_iff)
  next
    case False
    have c': "userfault_count (objs ?s' obj) = Suc (userfault_count (objs s obj))"
      using False by (simp add: mark_userfault_def upd_vma_def upd_obj_def Let_def)
    have u': "userfault_list ?s'
                = (if userfault_count (objs s obj) = 0 then obj # userfault_list s
                   else userfault_list s)"
      using False by (simp add: mark_userfault_def upd_vma_def upd_obj_def Let_def)
    have "length (filter (\<lambda>w. w = v \<or> vma_userfault (vmas s w)) (ggtt_vmas obj s))
            = Suc (length (filter (\<lambda>w. vma_userfault (vmas s w)) (ggtt_vmas obj s)))"
      using dg v False by (rule filter_mark_one)
    then show ?thesis
      using c' u' cnt mm li dl du
      by (simp add: userfault_ok_def gv vl fl mo list_all_iff)
  qed
qed

text \<open>
  So does the binding step: the mapping it returns is at the head of the object's
  list when new, and keeps its bits when the object had it among its GGTT mappings.
\<close>

lemma ggtt_pin_keeps_ok:
  assumes ok: "userfault_ok obj s"
    and known: "v \<in> set (vma_list (objs s obj)) \<longrightarrow> v \<in> set (ggtt_vmas obj s)"
  shows "userfault_ok obj (snd (i915_gem_object_ggtt_pin_ww obj view flags (Inr (v, img)) s))
         \<and> v \<in> set (ggtt_vmas obj
                       (snd (i915_gem_object_ggtt_pin_ww obj view flags (Inr (v, img)) s)))"
proof (cases "v \<in> set (vma_list (objs s obj))")
  case True
  let ?new = "img \<lparr> vma_is_ggtt := True, vma_userfault := vma_userfault (vmas s v),
                    vma_ggtt_write := vma_ggtt_write (vmas s v),
                    vma_mmo := vma_mmo (vmas s v) \<rparr>"
  let ?s' = "emit (EvGgttPin view flags (Inr v)) (s \<lparr> vmas := (vmas s)(v := ?new) \<rparr>)"
  have r: "snd (i915_gem_object_ggtt_pin_ww obj view flags (Inr (v, img)) s) = ?s'"
    using True by (simp add: i915_gem_object_ggtt_pin_ww_def Let_def)
  have vg: "v \<in> set (ggtt_vmas obj s)" using known True by simp
  then have isg: "vma_is_ggtt (vmas s v)"
    unfolding ggtt_vmas_def by (auto dest: set_takeWhileD)
  have same: "\<And>w. vma_is_ggtt (vmas ?s' w) = vma_is_ggtt (vmas s w)"
             "\<And>w. vma_userfault (vmas ?s' w) = vma_userfault (vmas s w)"
             "\<And>w. vma_mmo (vmas ?s' w) = vma_mmo (vmas s w)"
    using isg by (simp_all add: emit_def)
  have ig: "(\<lambda>w. vma_is_ggtt (vmas ?s' w)) = (\<lambda>w. vma_is_ggtt (vmas s w))"
    by (rule ext) (rule same)
  have vl0: "vma_list (objs ?s' obj) = vma_list (objs s obj)"
    by (simp add: emit_def)
  have gv: "ggtt_vmas obj ?s' = ggtt_vmas obj s"
    unfolding ggtt_vmas_def ig vl0 ..
  have "userfault_ok obj ?s'"
    using ok unfolding userfault_ok_def gv same by (simp add: emit_def)
  then show ?thesis using r gv vg by simp
next
  case False
  let ?new = "img \<lparr> vma_is_ggtt := True, vma_userfault := False,
                    vma_ggtt_write := False, vma_mmo := None \<rparr>"
  let ?s' = "emit (EvGgttPin view flags (Inr v))
               (upd_obj obj (\<lambda>ob. ob \<lparr> vma_list := v # vma_list ob \<rparr>)
                  (s \<lparr> vmas := (vmas s)(v := ?new) \<rparr>))"
  have r: "snd (i915_gem_object_ggtt_pin_ww obj view flags (Inr (v, img)) s) = ?s'"
    using False by (simp add: i915_gem_object_ggtt_pin_ww_def Let_def)
  have tw: "takeWhile (\<lambda>w. vma_is_ggtt (if w = v then ?new else vmas s w))
              (vma_list (objs s obj))
            = takeWhile (\<lambda>w. vma_is_ggtt (vmas s w)) (vma_list (objs s obj))"
    using False by (intro takeWhile_cong) auto
  have gv: "ggtt_vmas obj ?s' = v # ggtt_vmas obj s"
    using tw by (simp add: ggtt_vmas_def emit_def upd_obj_def fun_upd_def)
  have nv: "v \<notin> set (ggtt_vmas obj s)"
    using False unfolding ggtt_vmas_def by (auto dest: set_takeWhileD)
  have fl: "filter (\<lambda>w. vma_userfault (vmas ?s' w)) (ggtt_vmas obj s)
              = filter (\<lambda>w. vma_userfault (vmas s w)) (ggtt_vmas obj s)"
    using nv by (intro filter_cong) (auto simp add: emit_def upd_obj_def)
  have mm: "list_all (\<lambda>w. vma_userfault (vmas ?s' w) \<longrightarrow> vma_mmo (vmas ?s' w) \<noteq> None)
              (ggtt_vmas obj s)
            = list_all (\<lambda>w. vma_userfault (vmas s w) \<longrightarrow> vma_mmo (vmas s w) \<noteq> None)
              (ggtt_vmas obj s)"
    using nv unfolding list_all_iff by (auto simp add: emit_def upd_obj_def)
  have nf: "\<not> vma_userfault (vmas ?s' v)" by (simp add: emit_def upd_obj_def)
  have rest: "userfault_count (objs ?s' obj) = userfault_count (objs s obj)"
             "vma_list (objs ?s' obj) = v # vma_list (objs s obj)"
             "userfault_list ?s' = userfault_list s"
    by (simp_all add: emit_def upd_obj_def)
  have o1: "userfault_count (objs s obj)
              = length (filter (\<lambda>v. vma_userfault (vmas s v)) (ggtt_vmas obj s))"
    and o2: "distinct (vma_list (objs s obj))"
    and o3: "list_all (\<lambda>w. vma_userfault (vmas s w) \<longrightarrow> vma_mmo (vmas s w) \<noteq> None)
               (ggtt_vmas obj s)"
    and o4: "obj \<in> set (userfault_list s) \<longleftrightarrow> 0 < userfault_count (objs s obj)"
    and o5: "distinct (userfault_list s)"
    using ok unfolding userfault_ok_def by blast+
  have n1: "userfault_count (objs s obj)
              = length (filter (\<lambda>w. vma_userfault (vmas ?s' w)) (v # ggtt_vmas obj s))"
    using nf o1 unfolding filter.simps fl by simp
  have n2: "distinct (v # vma_list (objs s obj))" using o2 False by simp
  have n3: "list_all (\<lambda>w. vma_userfault (vmas ?s' w) \<longrightarrow> vma_mmo (vmas ?s' w) \<noteq> None)
               (v # ggtt_vmas obj s)"
    unfolding list.pred_inject mm using nf o3 by blast
  have "userfault_ok obj ?s'"
    unfolding userfault_ok_def gv rest
    using n1 n2 n3 o4 o5 by blast
  then show ?thesis using r gv by simp
qed

text \<open>An object with no mappings, a count of zero and off the list is consistent.\<close>

lemma userfault_ok_fresh:
  "vma_list (objs s obj) = [] \<Longrightarrow> userfault_count (objs s obj) = 0
   \<Longrightarrow> obj \<notin> set (userfault_list s) \<Longrightarrow> distinct (userfault_list s)
   \<Longrightarrow> userfault_ok obj s"
  by (simp add: userfault_ok_def ggtt_vmas_def)

subsection \<open>Objects that one chunk covers\<close>

lemma unat_ucast_chunk:
  "unat (ucast (c :: 32 word) :: 64 word) = unat c"
proof -
  have "unat c < 2^32" using unsigned_less [of c] by simp
  then have "unat c < (2::nat)^64" by simp
  then show ?thesis by (simp add: unsigned_ucast_eq take_bit_nat_eq_self)
qed

text \<open>The chunk of \<open>compute_partial_view\<close> in the naturals.\<close>

lemma unat_partial_chunk:
  assumes "0 < unat chunk0" and "unat chunk0 \<le> 2^32 - 2^20"
  shows "unat (partial_chunk obj chunk0)
           = (let row = (if i915_gem_object_is_tiled obj \<and> tile_row_pages obj \<noteq> 0
                         then unat (tile_row_pages obj) else 1)
              in ((unat chunk0 + (row - 1)) div row) * row)"
proof (cases "i915_gem_object_is_tiled obj \<and> tile_row_pages obj \<noteq> 0")
  case True
  have tl: "unat (tile_row_pages obj) < 2^20" by (rule unat_tile_row_pages)
  have nov: "unat chunk0 + unat (tile_row_pages obj) \<le> 2^32" using assms(2) tl by simp
  have "unat (roundup_u32 chunk0 (tile_row_pages obj))
          = ((unat chunk0 + (unat (tile_row_pages obj) - 1)) div unat (tile_row_pages obj))
              * unat (tile_row_pages obj)"
    using True nov by (intro unat_roundup_u32) simp_all
  then show ?thesis using True by (simp add: partial_chunk_def Let_def)
next
  case False
  have "partial_chunk obj chunk0 = chunk0"
    using False partial_chunk_props(2,4) [OF assms, of obj] by blast
  then show ?thesis using False by auto
qed

lemma small_object_view:
  assumes c0: "0 < unat chunk0" and c2: "unat chunk0 \<le> 2^32 - 2^20"
    and le: "unat (obj_pages obj) \<le> unat (partial_chunk obj chunk0)"
    and p: "page_offset < obj_pages obj"
  shows "compute_partial_view obj page_offset chunk0
           = Inr \<lparr> view_type = I915_GGTT_VIEW_NORMAL, partial_offset = 0,
                   partial_size = ucast (obj_pages obj) \<rparr>"
proof -
  let ?ch = "partial_chunk obj chunk0"
  have nz: "?ch \<noteq> 0" by (rule partial_chunk_nonzero [OF c0 c2])
  have "unat ?ch < 2^32" using unsigned_less [of ?ch] by simp
  then have n: "unat (obj_pages obj) < 2^32" using le by linarith
  from compute_partial_view_nat [OF nz n p] obtain v where
    v: "compute_partial_view obj page_offset chunk0 = Inr v"
    and o: "unat (partial_offset v) = (unat page_offset div unat ?ch) * unat ?ch"
    and s: "unat (partial_size v) = min (unat ?ch) (unat (obj_pages obj) - unat (partial_offset v))"
    by blast
  have ty: "view_type v = (if obj_pages obj \<le> ucast ?ch
                            then I915_GGTT_VIEW_NORMAL else I915_GGTT_VIEW_PARTIAL)"
    using v nz by (auto simp: compute_partial_view_def Let_def)
  have "obj_pages obj \<le> ucast ?ch"
    using le by (simp add: word_le_nat_alt unat_ucast_chunk)
  then have t: "view_type v = I915_GGTT_VIEW_NORMAL" using ty by simp
  have "unat page_offset < unat ?ch"
    using p le by (simp add: word_less_nat_alt)
  then have o0: "unat (partial_offset v) = 0" using o by simp
  then have o': "partial_offset v = 0" by (simp add: unat_eq_zero)
  have sz: "unat (partial_size v) = unat (obj_pages obj)" using s o0 le by simp
  have "unat (ucast (obj_pages obj) :: 32 word) = unat (obj_pages obj)"
    using n by (simp add: unsigned_ucast_eq take_bit_nat_eq_self)
  then have "unat (partial_size v) = unat (ucast (obj_pages obj) :: 32 word)"
    using sz by simp
  then have s': "partial_size v = ucast (obj_pages obj)" by (simp only: word_unat_eq_iff)
  have "v = \<lparr> view_type = I915_GGTT_VIEW_NORMAL, partial_offset = 0,
              partial_size = ucast (obj_pages obj) \<rparr>"
    using t o' s' by (cases v) simp
  then show ?thesis using v by simp
qed

lemma view_type_by_chunk:
  assumes c0: "0 < unat chunk0" and c2: "unat chunk0 \<le> 2^32 - 2^20"
  shows "\<exists>v. compute_partial_view obj page_offset chunk0 = Inr v
          \<and> (view_type v = I915_GGTT_VIEW_NORMAL
               \<longleftrightarrow> unat (obj_pages obj) \<le> unat (partial_chunk obj chunk0))"
proof -
  let ?ch = "partial_chunk obj chunk0"
  have nz: "?ch \<noteq> 0" by (rule partial_chunk_nonzero [OF c0 c2])
  obtain v where v: "compute_partial_view obj page_offset chunk0 = Inr v"
    and ty: "view_type v = (if obj_pages obj \<le> ucast ?ch
                            then I915_GGTT_VIEW_NORMAL else I915_GGTT_VIEW_PARTIAL)"
    using nz by (simp add: compute_partial_view_def Let_def)
  have cmp: "obj_pages obj \<le> ucast ?ch \<longleftrightarrow> unat (obj_pages obj) \<le> unat ?ch"
    by (simp add: word_le_nat_alt unat_ucast_chunk)
  have "view_type v = I915_GGTT_VIEW_NORMAL \<longleftrightarrow> unat (obj_pages obj) \<le> unat ?ch"
    using ty cmp by simp
  with v show ?thesis by blast
qed

text \<open>
  The binding step of \<open>vm_fault_gtt\<close> for an object that the view covers, when the
  binding of the whole object has failed: the view is bound without blocking; when
  that fails as well, the same range is bound as a view of type PARTIAL.
\<close>

lemma vm_fault_gtt_bind_small:
  assumes v: "compute_partial_view (objs s ptr) page_offset MIN_CHUNK_PAGES = Inr whole"
    and n: "view_type whole = I915_GGTT_VIEW_NORMAL"
    and f: "g_pin_full e = Inl err1" and d: "err1 \<noteq> - EDEADLK"
  shows "vm_fault_gtt_bind e ptr page_offset s =
     (let s1 = emit (EvGgttPin None
                       {PIN_OFFSET_GUARD_4K, PIN_MAPPABLE, PIN_NONBLOCK, PIN_NOEVICT}
                       (Inl err1)) s;
          (r2, s2) = i915_gem_object_ggtt_pin_ww ptr (Some whole)
                       {PIN_OFFSET_GUARD_4K, PIN_MAPPABLE, PIN_NOSEARCH, PIN_NONBLOCK}
                       (g_pin_view e) s1
      in if pin_failed_not_deadlk r2
         then (let (r3, s3) = i915_gem_object_ggtt_pin_ww ptr
                                (Some (whole \<lparr> view_type := I915_GGTT_VIEW_PARTIAL \<rparr>))
                                {PIN_OFFSET_GUARD_4K, PIN_MAPPABLE} (g_pin_partial e) s2
               in if r3 = Inl (- ENOSPC) then Inl BugOn else Inr (r3, s3))
         else Inr (r2, s2))"
proof -
  let ?F1 = "{PIN_OFFSET_GUARD_4K, PIN_MAPPABLE, PIN_NONBLOCK, PIN_NOEVICT}"
  let ?s1 = "emit (EvGgttPin None ?F1 (Inl err1)) s"
  have p1: "i915_gem_object_ggtt_pin_ww ptr None ?F1 (g_pin_full e) s = (Inl err1, ?s1)"
    using f by (simp add: i915_gem_object_ggtt_pin_ww_def)
  have fl: "pin_failed_not_deadlk (Inl err1)" using d by (simp add: pin_failed_not_deadlk_def)
  have o: "objs ?s1 = objs s" by (simp add: emit_def)
  have fs: "{PIN_OFFSET_GUARD_4K, PIN_MAPPABLE, PIN_NOSEARCH} \<union> {PIN_NONBLOCK}
              = {PIN_OFFSET_GUARD_4K, PIN_MAPPABLE, PIN_NOSEARCH, PIN_NONBLOCK}"
    by auto
  obtain r2 s2 where p2: "i915_gem_object_ggtt_pin_ww ptr (Some whole)
                       {PIN_OFFSET_GUARD_4K, PIN_MAPPABLE, PIN_NOSEARCH, PIN_NONBLOCK}
                       (g_pin_view e) ?s1 = (r2, s2)"
    by (cases "i915_gem_object_ggtt_pin_ww ptr (Some whole)
                       {PIN_OFFSET_GUARD_4K, PIN_MAPPABLE, PIN_NOSEARCH, PIN_NONBLOCK}
                       (g_pin_view e) ?s1")
  obtain r3 s3 where p3: "i915_gem_object_ggtt_pin_ww ptr
                                (Some (whole \<lparr> view_type := I915_GGTT_VIEW_PARTIAL \<rparr>))
                                {PIN_OFFSET_GUARD_4K, PIN_MAPPABLE} (g_pin_partial e) s2
                            = (r3, s3)"
    by (cases "i915_gem_object_ggtt_pin_ww ptr
                                (Some (whole \<lparr> view_type := I915_GGTT_VIEW_PARTIAL \<rparr>))
                                {PIN_OFFSET_GUARD_4K, PIN_MAPPABLE} (g_pin_partial e) s2")
  have ok2: "r2 \<noteq> Inl (- ENOSPC)" if "\<not> pin_failed_not_deadlk r2"
    using that by (auto simp: pin_failed_not_deadlk_def errno_defs split: sum.splits)
  have u: "vm_fault_gtt_bind e ptr page_offset s =
             (let (r3, s3) =
                    (if pin_failed_not_deadlk r2
                     then i915_gem_object_ggtt_pin_ww ptr
                            (Some (whole \<lparr> view_type := I915_GGTT_VIEW_PARTIAL \<rparr>))
                            {PIN_OFFSET_GUARD_4K, PIN_MAPPABLE} (g_pin_partial e) s2
                     else (r2, s2))
              in if r3 = Inl (- ENOSPC) then Inl BugOn else Inr (r3, s3))"
    unfolding vm_fault_gtt_bind_def p1 Let_def prod.case o v sum.case
    by (simp only: fl n simp_thms if_True fs p2 prod.case)
  show ?thesis
  proof (cases "pin_failed_not_deadlk r2")
    case True
    then show ?thesis unfolding u Let_def p2 prod.case by simp
  next
    case False
    then show ?thesis unfolding u Let_def p2 prod.case using ok2 by simp
  qed
qed


lemmas bind_defs = vm_fault_gtt_bind_def i915_gem_object_ggtt_pin_ww_def
  pin_failed_not_deadlk_def compute_partial_view_def partial_chunk_def roundup_u32_def
  rounddown_u64_def obj_pages_def tile_row_pages_def i915_gem_object_is_tiled_def
  MIN_CHUNK_PAGES_def PAGE_SHIFT_def emit_def upd_obj_def

lemmas fixture7_defs = row96_state_def row96_obj_def writable_state_def readonly_state_def
  idle_state_def small_obj_def shmem_object_def idle_vma_def good_gtt_env_def
  fragmented_gtt_env_def crowded_gtt_env_def

text \<open>
  C10, as stated, fails in its consequence: for an object that one chunk covers, the
  fallback does not always end in a full-object binding. The tiled object of 270 pages
  with a tile row of 96 pages gets a NORMAL view (the chunk is 288 pages), but when
  that view cannot be bound either, \<open>vm_fault_gtt\<close> sets the view's type to PARTIAL and
  binds it: the mapping it returns is of a partial view.
\<close>

theorem C10_forced_partial_counterexample:
  "i915_gem_object_is_tiled (objs row96_state 3)
   \<and> tile_row_pages (objs row96_state 3) = 96
   \<and> obj_pages (objs row96_state 3) = 270
   \<and> compute_partial_view (objs row96_state 3) 1 MIN_CHUNK_PAGES
        = Inr \<lparr> view_type = I915_GGTT_VIEW_NORMAL, partial_offset = 0, partial_size = 270 \<rparr>
   \<and> (case vm_fault_gtt_bind fragmented_gtt_env 3 1 row96_state of
         Inr (Inr v, s') \<Rightarrow>
           v = 20
           \<and> view_type (ggtt_view (vmas s' 20)) = I915_GGTT_VIEW_PARTIAL
           \<and> trace s' =
               [EvGgttPin None
                  {PIN_OFFSET_GUARD_4K, PIN_MAPPABLE, PIN_NONBLOCK, PIN_NOEVICT}
                  (Inl (- ENOSPC)),
                EvGgttPin
                  (Some \<lparr> view_type = I915_GGTT_VIEW_NORMAL, partial_offset = 0,
                          partial_size = 270 \<rparr>)
                  {PIN_OFFSET_GUARD_4K, PIN_MAPPABLE, PIN_NOSEARCH, PIN_NONBLOCK}
                  (Inl (- ENOSPC)),
                EvGgttPin
                  (Some \<lparr> view_type = I915_GGTT_VIEW_PARTIAL, partial_offset = 0,
                          partial_size = 270 \<rparr>)
                  {PIN_OFFSET_GUARD_4K, PIN_MAPPABLE}
                  (Inr 20)]
       | _ \<Rightarrow> False)"
  by (simp add: bind_defs fixture7_defs Let_def errno_defs drop_bit_eq_div insert_commute)

text \<open>
  C10 (amended). For every object and every requested chunk (non-zero, at most
  \<open>2^32 - 2^20\<close> pages): the view that \<open>compute_partial_view\<close> returns has type NORMAL
  exactly when the object's page count is at most the chunk, which for a tiled object
  with a tile row of at least one page is the requested chunk rounded up to a multiple
  of the tile row, and the requested chunk itself otherwise. In that case, for a fault
  within the object, the view is the whole object: offset 0 and the object's page
  count. In the binding step of \<open>vm_fault_gtt\<close>, once the binding of the whole object
  has failed for such an object (not by a deadlock), the whole-object view is bound
  without blocking or searching, and that binding is the result when it succeeds or
  deadlocks; only when it fails as well is the type of the view set to PARTIAL and the
  same range bound as a partial view.
\<close>

theorem C10_small_object_view_amended:
  fixes obj :: drm_i915_gem_object and chunk0 :: "32 word" and row chunk :: nat
  defines "row \<equiv> (if i915_gem_object_is_tiled obj \<and> tile_row_pages obj \<noteq> 0
                   then unat (tile_row_pages obj) else 1)"
  defines "chunk \<equiv> ((unat chunk0 + (row - 1)) div row) * row"
  assumes c0: "0 < unat chunk0" and c2: "unat chunk0 \<le> 2^32 - 2^20"
  shows "\<exists>v. compute_partial_view obj page_offset chunk0 = Inr v
     \<and> (view_type v = I915_GGTT_VIEW_NORMAL \<longleftrightarrow> unat (obj_pages obj) \<le> chunk)
     \<and> (unat (obj_pages obj) \<le> chunk \<and> page_offset < obj_pages obj \<longrightarrow>
          v = \<lparr> view_type = I915_GGTT_VIEW_NORMAL, partial_offset = 0,
                partial_size = ucast (obj_pages obj) \<rparr>
          \<and> unat (partial_size v) = unat (obj_pages obj))
     \<and> (objs s ptr = obj \<and> chunk0 = MIN_CHUNK_PAGES
          \<and> unat (obj_pages obj) \<le> chunk \<and> page_offset < obj_pages obj
          \<and> g_pin_full e = Inl err1 \<and> err1 \<noteq> - EDEADLK \<longrightarrow>
          vm_fault_gtt_bind e ptr page_offset s =
            (let s1 = emit (EvGgttPin None
                              {PIN_OFFSET_GUARD_4K, PIN_MAPPABLE, PIN_NONBLOCK, PIN_NOEVICT}
                              (Inl err1)) s;
                 (r2, s2) = i915_gem_object_ggtt_pin_ww ptr (Some v)
                              {PIN_OFFSET_GUARD_4K, PIN_MAPPABLE, PIN_NOSEARCH, PIN_NONBLOCK}
                              (g_pin_view e) s1
             in if pin_failed_not_deadlk r2
                then (let (r3, s3) =
                            i915_gem_object_ggtt_pin_ww ptr
                              (Some (v \<lparr> view_type := I915_GGTT_VIEW_PARTIAL \<rparr>))
                              {PIN_OFFSET_GUARD_4K, PIN_MAPPABLE} (g_pin_partial e) s2
                      in if r3 = Inl (- ENOSPC) then Inl BugOn else Inr (r3, s3))
                else Inr (r2, s2)))"
proof -
  have ch: "unat (partial_chunk obj chunk0) = chunk"
    using unat_partial_chunk [OF c0 c2, of obj] by (simp add: chunk_def row_def Let_def)
  from view_type_by_chunk [OF c0 c2, of obj page_offset] obtain v where
    v: "compute_partial_view obj page_offset chunk0 = Inr v"
    and t: "view_type v = I915_GGTT_VIEW_NORMAL \<longleftrightarrow> unat (obj_pages obj) \<le> chunk"
    unfolding ch by blast
  have w: "v = \<lparr> view_type = I915_GGTT_VIEW_NORMAL, partial_offset = 0,
                   partial_size = ucast (obj_pages obj) \<rparr>
           \<and> unat (partial_size v) = unat (obj_pages obj)"
    if le: "unat (obj_pages obj) \<le> chunk" and p: "page_offset < obj_pages obj"
  proof -
    have le': "unat (obj_pages obj) \<le> unat (partial_chunk obj chunk0)" using le ch by simp
    have e: "v = \<lparr> view_type = I915_GGTT_VIEW_NORMAL, partial_offset = 0,
                      partial_size = ucast (obj_pages obj) \<rparr>"
      using small_object_view [OF c0 c2 le' p] v by simp
    have "unat (partial_chunk obj chunk0) < 2^32"
      using unsigned_less [of "partial_chunk obj chunk0"] by simp
    then have n: "unat (obj_pages obj) < 2^32" using le' by linarith
    have "unat (ucast (obj_pages obj) :: 32 word) = unat (obj_pages obj)"
      using n by (simp add: unsigned_ucast_eq take_bit_nat_eq_self)
    then show ?thesis using e by simp
  qed
  have b: "vm_fault_gtt_bind e ptr page_offset s =
            (let s1 = emit (EvGgttPin None
                              {PIN_OFFSET_GUARD_4K, PIN_MAPPABLE, PIN_NONBLOCK, PIN_NOEVICT}
                              (Inl err1)) s;
                 (r2, s2) = i915_gem_object_ggtt_pin_ww ptr (Some v)
                              {PIN_OFFSET_GUARD_4K, PIN_MAPPABLE, PIN_NOSEARCH, PIN_NONBLOCK}
                              (g_pin_view e) s1
             in if pin_failed_not_deadlk r2
                then (let (r3, s3) =
                            i915_gem_object_ggtt_pin_ww ptr
                              (Some (v \<lparr> view_type := I915_GGTT_VIEW_PARTIAL \<rparr>))
                              {PIN_OFFSET_GUARD_4K, PIN_MAPPABLE} (g_pin_partial e) s2
                      in if r3 = Inl (- ENOSPC) then Inl BugOn else Inr (r3, s3))
                else Inr (r2, s2))"
    if h: "objs s ptr = obj \<and> chunk0 = MIN_CHUNK_PAGES
          \<and> unat (obj_pages obj) \<le> chunk \<and> page_offset < obj_pages obj
          \<and> g_pin_full e = Inl err1 \<and> err1 \<noteq> - EDEADLK"
  proof -
    have v': "compute_partial_view (objs s ptr) page_offset MIN_CHUNK_PAGES = Inr v"
      using v h by simp
    have n: "view_type v = I915_GGTT_VIEW_NORMAL" using t h by simp
    have f: "g_pin_full e = Inl err1" and d: "err1 \<noteq> - EDEADLK" using h by simp_all
    show ?thesis by (rule vm_fault_gtt_bind_small [OF v' n f d])
  qed
  show ?thesis
  proof (intro exI conjI impI)
    show "compute_partial_view obj page_offset chunk0 = Inr v" by (rule v)
    show "view_type v = I915_GGTT_VIEW_NORMAL \<longleftrightarrow> unat (obj_pages obj) \<le> chunk" by (rule t)
  next
    assume a: "unat (obj_pages obj) \<le> chunk \<and> page_offset < obj_pages obj"
    show "v = \<lparr> view_type = I915_GGTT_VIEW_NORMAL, partial_offset = 0,
                partial_size = ucast (obj_pages obj) \<rparr>"
      using w a by blast
    show "unat (partial_size v) = unat (obj_pages obj)" using w a by blast
  next
    assume h: "objs s ptr = obj \<and> chunk0 = MIN_CHUNK_PAGES
          \<and> unat (obj_pages obj) \<le> chunk \<and> page_offset < obj_pages obj
          \<and> g_pin_full e = Inl err1 \<and> err1 \<noteq> - EDEADLK"
    show "vm_fault_gtt_bind e ptr page_offset s =
            (let s1 = emit (EvGgttPin None
                              {PIN_OFFSET_GUARD_4K, PIN_MAPPABLE, PIN_NONBLOCK, PIN_NOEVICT}
                              (Inl err1)) s;
                 (r2, s2) = i915_gem_object_ggtt_pin_ww ptr (Some v)
                              {PIN_OFFSET_GUARD_4K, PIN_MAPPABLE, PIN_NOSEARCH, PIN_NONBLOCK}
                              (g_pin_view e) s1
             in if pin_failed_not_deadlk r2
                then (let (r3, s3) =
                            i915_gem_object_ggtt_pin_ww ptr
                              (Some (v \<lparr> view_type := I915_GGTT_VIEW_PARTIAL \<rparr>))
                              {PIN_OFFSET_GUARD_4K, PIN_MAPPABLE} (g_pin_partial e) s2
                      in if r3 = Inl (- ENOSPC) then Inl BugOn else Inr (r3, s3))
                else Inr (r2, s2))"
      by (rule b [OF h])
  qed
qed

text \<open>
  The tiled object of 270 pages with a tile row of 96 pages: the chunk of 256 pages is
  rounded up to 288, so the view is the whole object, and when the aperture has room
  for the view the fallback binds the whole object.
\<close>

theorem C10_small_object_view_amended_witness:
  "0 < unat MIN_CHUNK_PAGES \<and> unat MIN_CHUNK_PAGES \<le> 2^32 - 2^20
   \<and> i915_gem_object_is_tiled (objs row96_state 3)
   \<and> unat (tile_row_pages (objs row96_state 3)) = 96
   \<and> unat (obj_pages (objs row96_state 3)) = 270
   \<and> unat MIN_CHUNK_PAGES < unat (obj_pages (objs row96_state 3))
   \<and> unat (obj_pages (objs row96_state 3)) \<le> ((unat MIN_CHUNK_PAGES + (96 - 1)) div 96) * 96
   \<and> (1 :: 64 word) < obj_pages (objs row96_state 3)
   \<and> g_pin_full crowded_gtt_env = Inl (- ENOSPC) \<and> - ENOSPC \<noteq> - EDEADLK
   \<and> compute_partial_view (objs row96_state 3) 1 MIN_CHUNK_PAGES
        = Inr \<lparr> view_type = I915_GGTT_VIEW_NORMAL, partial_offset = 0, partial_size = 270 \<rparr>
   \<and> (\<exists>s'. vm_fault_gtt_bind crowded_gtt_env 3 1 row96_state = Inr (Inr 20, s')
          \<and> trace s' =
               [EvGgttPin None
                  {PIN_OFFSET_GUARD_4K, PIN_MAPPABLE, PIN_NONBLOCK, PIN_NOEVICT}
                  (Inl (- ENOSPC)),
                EvGgttPin
                  (Some \<lparr> view_type = I915_GGTT_VIEW_NORMAL, partial_offset = 0,
                          partial_size = 270 \<rparr>)
                  {PIN_OFFSET_GUARD_4K, PIN_MAPPABLE, PIN_NOSEARCH, PIN_NONBLOCK}
                  (Inr 20)])"
proof -
  let ?obj = "objs row96_state 3"
  have m: "MIN_CHUNK_PAGES = 256"
    by (simp add: MIN_CHUNK_PAGES_def PAGE_SHIFT_def drop_bit_eq_div)
  have ti: "i915_gem_object_is_tiled ?obj"
    by (simp add: fixture7_defs i915_gem_object_is_tiled_def)
  have tr: "tile_row_pages ?obj = 96"
    by (simp add: fixture7_defs tile_row_pages_def PAGE_SHIFT_def drop_bit_eq_div)
  have pg: "obj_pages ?obj = 270"
    by (simp add: fixture7_defs obj_pages_def PAGE_SHIFT_def drop_bit_eq_div)
  have h1: "0 < unat MIN_CHUNK_PAGES" by (simp add: m)
  have h2: "unat MIN_CHUNK_PAGES \<le> 2^32 - 2^20" by (simp add: m)
  have h3: "unat (obj_pages ?obj) \<le> ((unat MIN_CHUNK_PAGES + (96 - 1)) div 96) * 96"
    by (simp add: pg m)
  have h4: "(1 :: 64 word) < obj_pages ?obj" by (simp add: pg)
  have h5: "g_pin_full crowded_gtt_env = Inl (- ENOSPC)" by (simp add: fixture7_defs)
  have h6: "- ENOSPC \<noteq> - EDEADLK" by (simp add: errno_defs)
  have gt: "unat MIN_CHUNK_PAGES < unat (obj_pages ?obj)" by (simp add: pg m)
  note T = C10_small_object_view_amended [OF h1 h2, of ?obj 1 row96_state 3
      crowded_gtt_env "- ENOSPC"]
  from T obtain v where
    v: "compute_partial_view ?obj 1 MIN_CHUNK_PAGES = Inr v"
    and w: "v = \<lparr> view_type = I915_GGTT_VIEW_NORMAL, partial_offset = 0,
                   partial_size = ucast (obj_pages ?obj) \<rparr>"
    and b: "vm_fault_gtt_bind crowded_gtt_env 3 1 row96_state =
            (let s1 = emit (EvGgttPin None
                              {PIN_OFFSET_GUARD_4K, PIN_MAPPABLE, PIN_NONBLOCK, PIN_NOEVICT}
                              (Inl (- ENOSPC))) row96_state;
                 (r2, s2) = i915_gem_object_ggtt_pin_ww 3 (Some v)
                              {PIN_OFFSET_GUARD_4K, PIN_MAPPABLE, PIN_NOSEARCH, PIN_NONBLOCK}
                              (g_pin_view crowded_gtt_env) s1
             in if pin_failed_not_deadlk r2
                then (let (r3, s3) =
                            i915_gem_object_ggtt_pin_ww 3
                              (Some (v \<lparr> view_type := I915_GGTT_VIEW_PARTIAL \<rparr>))
                              {PIN_OFFSET_GUARD_4K, PIN_MAPPABLE}
                              (g_pin_partial crowded_gtt_env) s2
                      in if r3 = Inl (- ENOSPC) then Inl BugOn else Inr (r3, s3))
                else Inr (r2, s2))"
    using ti tr h3 h4 h5 h6 by auto
  have w': "v = \<lparr> view_type = I915_GGTT_VIEW_NORMAL, partial_offset = 0, partial_size = 270 \<rparr>"
    using w pg by simp
  have c: "compute_partial_view ?obj 1 MIN_CHUNK_PAGES
        = Inr \<lparr> view_type = I915_GGTT_VIEW_NORMAL, partial_offset = 0, partial_size = 270 \<rparr>"
    using v w' by simp
  have r: "\<exists>s'. vm_fault_gtt_bind crowded_gtt_env 3 1 row96_state = Inr (Inr 20, s')
          \<and> trace s' =
               [EvGgttPin None
                  {PIN_OFFSET_GUARD_4K, PIN_MAPPABLE, PIN_NONBLOCK, PIN_NOEVICT}
                  (Inl (- ENOSPC)),
                EvGgttPin
                  (Some \<lparr> view_type = I915_GGTT_VIEW_NORMAL, partial_offset = 0,
                          partial_size = 270 \<rparr>)
                  {PIN_OFFSET_GUARD_4K, PIN_MAPPABLE, PIN_NOSEARCH, PIN_NONBLOCK}
                  (Inr 20)]"
    unfolding b w'
    by (simp add: i915_gem_object_ggtt_pin_ww_def pin_failed_not_deadlk_def emit_def
          upd_obj_def fixture7_defs Let_def)
  have tr': "unat (tile_row_pages ?obj) = 96" using tr by simp
  have pg': "unat (obj_pages ?obj) = 270" using pg by simp
  from h1 h2 ti tr' pg' gt h3 h4 h5 h6 c r show ?thesis by blast
qed

subsection \<open>The teardown of the mmap offsets\<close>

text \<open>
  The loop of \<open>i915_gem_object_release_mmap_offset\<close> adds to the trace one unmapping
  for each record of the sequence that is not of the GTT type, in order, and changes
  nothing else.
\<close>

lemma release_mmap_offset_loop_trace:
  "release_mmap_offset_loop ms off len s =
     s \<lparr> trace := trace s @
            map (\<lambda>m. EvUnmapNodeRange m
                        (drm_vma_node_offset_addr (vma_node (mmos s m)) + off) len)
                (filter (\<lambda>m. mmap_type (mmos s m) \<noteq> I915_MMAP_TYPE_GTT) ms) \<rparr>"
proof (induction ms arbitrary: s)
  case Nil
  show ?case by (simp add: release_mmap_offset_loop_def)
next
  case (Cons m ms)
  let ?s1 = "if mmap_type (mmos s m) = I915_MMAP_TYPE_GTT then s
             else drm_vma_node_unmap_range m off len s"
  have u: "release_mmap_offset_loop (m # ms) off len s
             = release_mmap_offset_loop ms off len ?s1"
    by (simp add: release_mmap_offset_loop_def)
  have mm: "mmos ?s1 = mmos s"
    by (simp add: drm_vma_node_unmap_range_def emit_def)
  show ?case
    unfolding u Cons.IH mm
    by (simp add: drm_vma_node_unmap_range_def emit_def)
qed

lemma release_mmap_gtt_mmos:
  assumes "i915_gem_object_release_mmap_gtt obj s = Inr s1"
  shows "mmos s1 = mmos s"
proof -
  have step: "mmos b = mmos a" if "i915_vma_revoke_mmap obj v a = Inr b" for v a b
    using that
    by (auto simp: i915_vma_revoke_mmap_def Let_def emit_def upd_vma_def upd_obj_def
          split: if_splits option.splits)
  have all: "revoke_all obj vs a = Inr b \<Longrightarrow> mmos b = mmos a" for vs a b
  proof (induction vs arbitrary: a)
    case Nil
    then show ?case by simp
  next
    case (Cons v vs)
    then show ?case using step by (auto split: sum.splits)
  qed
  show ?thesis
    using assms all
    by (auto simp: i915_gem_object_release_mmap_gtt_def
          dunder_i915_gem_object_release_mmap_gtt_def Let_def emit_def
          split: if_splits sum.splits)
qed


lemma release_mmap_gtt_layout:
  assumes "i915_gem_object_release_mmap_gtt obj s = Inr s1"
  shows "base_size (objs s1 p) = base_size (objs s p)
         \<and> is_segment (objs s1 p) = is_segment (objs s p)
         \<and> parent (objs s1 p) = parent (objs s p)
         \<and> segment_offset (objs s1 p) = segment_offset (objs s p)
         \<and> mmo_offsets (objs s1 p) = mmo_offsets (objs s p)"
proof -
  let ?same = "\<lambda>a b. base_size (objs b p) = base_size (objs a p)
         \<and> is_segment (objs b p) = is_segment (objs a p)
         \<and> parent (objs b p) = parent (objs a p)
         \<and> segment_offset (objs b p) = segment_offset (objs a p)
         \<and> mmo_offsets (objs b p) = mmo_offsets (objs a p)"
  have step: "?same a b" if "i915_vma_revoke_mmap obj v a = Inr b" for v a b
    using that
    by (auto simp: i915_vma_revoke_mmap_def Let_def emit_def upd_vma_def upd_obj_def
          split: if_splits option.splits)
  have all: "revoke_all obj vs a = Inr b \<Longrightarrow> ?same a b" for vs a b
  proof (induction vs arbitrary: a)
    case Nil
    then show ?case by simp
  next
    case (Cons v vs)
    from Cons.prems obtain c where c: "i915_vma_revoke_mmap obj v a = Inr c"
      and r: "revoke_all obj vs c = Inr b"
      by (auto split: sum.splits)
    from step [OF c] Cons.IH [OF r] show ?case by simp
  qed
  show ?thesis
  proof (cases "userfault_count (objs s obj) = 0")
    case True
    then have "s1 = emit EvRpmPut (emit EvRpmGet s)"
      using assms release_mmap_gtt_idle [of s obj] by simp
    then show ?thesis by (simp add: emit_def)
  next
    case False
    then obtain s' where r: "revoke_all obj (ggtt_vmas obj (emit EvRpmGet s)) (emit EvRpmGet s) = Inr s'"
      and e: "s1 = emit EvRpmPut (emit EvWmb s')"
      using assms
      by (auto simp: i915_gem_object_release_mmap_gtt_def
            dunder_i915_gem_object_release_mmap_gtt_def Let_def emit_def
            split: if_splits sum.splits)
    from all [OF r] show ?thesis unfolding e by (simp add: emit_def)
  qed
qed

text \<open>
  C9. \<open>i915_gem_object_release_mmap_offset\<close> changes nothing but the trace: every
  record stays in the registry as it was. What it adds to the trace is one unmapping
  for each record that is not of the GTT type, in the post-order of the registry it
  walks, and nothing else: the object's own registry, from offset 0, for an object
  that is not a segment; the parent's registry, from the segment's offset, for a
  segment; nothing for a segment whose parent pointer is cleared. The length is the
  size of the object itself. So no record of the GTT type is unmapped, and for an
  object that is not a segment every record of another type in its registry is, over
  the whole object. In \<open>i915_gem_object_release_mmap\<close> the same unmappings follow
  those of \<open>i915_gem_object_release_mmap_gtt\<close>, which alone can unmap a record of the
  GTT type; with the userfault bookkeeping consistent the teardown does not trap.
\<close>

theorem C9_release_mmap_offset_skips_gtt:
  fixes s :: i915_state and obj :: nat
    and unmaps :: "nat \<Rightarrow> 64 word \<Rightarrow> event list" and evs :: "event list"
  defines "unmaps \<equiv> \<lambda>target off.
     map (\<lambda>m. EvUnmapNodeRange m
                 (drm_vma_node_offset_addr (vma_node (mmos s m)) + off)
                 (base_size (objs s obj)))
         (filter (\<lambda>m. mmap_type (mmos s m) \<noteq> I915_MMAP_TYPE_GTT)
                 (postorder (mmo_offsets (objs s target))))"
  defines "evs \<equiv> (if is_segment (objs s obj)
                   then (case parent (objs s obj) of
                           None \<Rightarrow> []
                         | Some par \<Rightarrow> unmaps par (segment_offset (objs s obj)))
                   else unmaps obj 0)"
  shows "i915_gem_object_release_mmap_offset obj s = s \<lparr> trace := trace s @ evs \<rparr>
     \<and> (\<forall>m a len. EvUnmapNodeRange m a len \<in> set evs
            \<longrightarrow> mmap_type (mmos s m) \<noteq> I915_MMAP_TYPE_GTT)
     \<and> (\<not> is_segment (objs s obj) \<longrightarrow>
          (\<forall>m \<in> set_tree (mmo_offsets (objs s obj)).
              mmap_type (mmos s m) \<noteq> I915_MMAP_TYPE_GTT \<longrightarrow>
              EvUnmapNodeRange m (drm_vma_node_offset_addr (vma_node (mmos s m)))
                (base_size (objs s obj)) \<in> set evs))
     \<and> (\<forall>s2. i915_gem_object_release_mmap obj s = Inr s2 \<longrightarrow>
            (\<exists>s1. i915_gem_object_release_mmap_gtt obj s = Inr s1
                  \<and> s2 = s1 \<lparr> trace := trace s1 @ evs \<rparr>))
     \<and> (userfault_ok obj s \<longrightarrow> (\<exists>s2. i915_gem_object_release_mmap obj s = Inr s2))"
proof -
  have gen: "i915_gem_object_release_mmap_offset obj a =
     a \<lparr> trace := trace a @
       (if is_segment (objs a obj)
        then (case parent (objs a obj) of
                None \<Rightarrow> []
              | Some par \<Rightarrow>
                  map (\<lambda>m. EvUnmapNodeRange m
                              (drm_vma_node_offset_addr (vma_node (mmos a m))
                                 + segment_offset (objs a obj))
                              (base_size (objs a obj)))
                      (filter (\<lambda>m. mmap_type (mmos a m) \<noteq> I915_MMAP_TYPE_GTT)
                              (postorder (mmo_offsets (objs a par)))))
        else map (\<lambda>m. EvUnmapNodeRange m
                         (drm_vma_node_offset_addr (vma_node (mmos a m)) + 0)
                         (base_size (objs a obj)))
                 (filter (\<lambda>m. mmap_type (mmos a m) \<noteq> I915_MMAP_TYPE_GTT)
                         (postorder (mmo_offsets (objs a obj))))) \<rparr>" for a
    by (simp add: i915_gem_object_release_mmap_offset_def Let_def
          release_mmap_offset_loop_trace split: option.splits)
  have c1: "i915_gem_object_release_mmap_offset obj s = s \<lparr> trace := trace s @ evs \<rparr>"
    unfolding gen evs_def unmaps_def ..
  have c2: "mmap_type (mmos s m) \<noteq> I915_MMAP_TYPE_GTT"
    if "EvUnmapNodeRange m a len \<in> set evs" for m a len
    using that unfolding evs_def unmaps_def
    by (auto split: if_splits option.splits)
  have c3: "EvUnmapNodeRange m (drm_vma_node_offset_addr (vma_node (mmos s m)))
                (base_size (objs s obj)) \<in> set evs"
    if ns: "\<not> is_segment (objs s obj)" and m: "m \<in> set_tree (mmo_offsets (objs s obj))"
      and ng: "mmap_type (mmos s m) \<noteq> I915_MMAP_TYPE_GTT" for m
  proof -
    have "m \<in> set (filter (\<lambda>m. mmap_type (mmos s m) \<noteq> I915_MMAP_TYPE_GTT)
                      (postorder (mmo_offsets (objs s obj))))"
      using m ng by simp
    then show ?thesis
      using ns unfolding evs_def unmaps_def by (auto simp: image_iff)
  qed
  have c4: "\<exists>s1. i915_gem_object_release_mmap_gtt obj s = Inr s1
                  \<and> s2 = s1 \<lparr> trace := trace s1 @ evs \<rparr>"
    if r: "i915_gem_object_release_mmap obj s = Inr s2" for s2
  proof -
    from r obtain s1 where g: "i915_gem_object_release_mmap_gtt obj s = Inr s1"
      and o: "s2 = i915_gem_object_release_mmap_offset obj s1"
      by (auto simp: i915_gem_object_release_mmap_def split: sum.splits)
    have mm: "mmos s1 = mmos s" using g by (rule release_mmap_gtt_mmos)
    note L = release_mmap_gtt_layout [OF g]
    have "s2 = s1 \<lparr> trace := trace s1 @ evs \<rparr>"
      unfolding o gen [of s1] evs_def unmaps_def mm
      by (simp add: L split: option.splits)
    with g show ?thesis by blast
  qed
  have c5: "\<exists>s2. i915_gem_object_release_mmap obj s = Inr s2" if ok: "userfault_ok obj s"
  proof (cases "userfault_count (objs s obj) = 0")
    case True
    then show ?thesis
      by (simp add: i915_gem_object_release_mmap_def release_mmap_gtt_idle)
  next
    case False
    from release_mmap_gtt_busy [OF ok False] obtain s' where
      "i915_gem_object_release_mmap_gtt obj s = Inr (emit EvRpmPut (emit EvWmb s'))"
      by blast
    then show ?thesis by (simp add: i915_gem_object_release_mmap_def)
  qed
  show ?thesis
  proof (intro conjI allI impI ballI)
    show "i915_gem_object_release_mmap_offset obj s = s \<lparr> trace := trace s @ evs \<rparr>"
      by (rule c1)
  next
    fix m :: nat and a len :: "64 word"
    assume "EvUnmapNodeRange m a len \<in> set evs"
    then show "mmap_type (mmos s m) \<noteq> I915_MMAP_TYPE_GTT" by (rule c2)
  next
    fix m
    assume "\<not> is_segment (objs s obj)" and "m \<in> set_tree (mmo_offsets (objs s obj))"
      and "mmap_type (mmos s m) \<noteq> I915_MMAP_TYPE_GTT"
    then show "EvUnmapNodeRange m (drm_vma_node_offset_addr (vma_node (mmos s m)))
                (base_size (objs s obj)) \<in> set evs" by (rule c3)
  next
    fix s2
    assume "i915_gem_object_release_mmap obj s = Inr s2"
    then show "\<exists>s1. i915_gem_object_release_mmap_gtt obj s = Inr s1
                  \<and> s2 = s1 \<lparr> trace := trace s1 @ evs \<rparr>" by (rule c4)
  next
    assume "userfault_ok obj s"
    then show "\<exists>s2. i915_gem_object_release_mmap obj s = Inr s2" by (rule c5)
  qed
qed


text \<open>
  The object with a GTT, a write-combined and a write-back mmap offset and two faulted
  GGTT mappings: the teardown of the mmap offsets unmaps the write-back and the
  write-combined record over the whole object and not the GTT record, whose two
  mappings the revocation unmaps before.
\<close>

theorem C9_release_mmap_offset_skips_gtt_witness:
  "\<not> is_segment (objs mapped_state 3)
   \<and> userfault_ok 3 mapped_state
   \<and> set_tree (mmo_offsets (objs mapped_state 3)) = {0, 1, 2}
   \<and> mmap_type (mmos mapped_state 0) = I915_MMAP_TYPE_GTT
   \<and> mmap_type (mmos mapped_state 1) = I915_MMAP_TYPE_WC
   \<and> mmap_type (mmos mapped_state 2) = I915_MMAP_TYPE_WB
   \<and> i915_gem_object_release_mmap_offset 3 mapped_state
       = mapped_state \<lparr> trace := [EvUnmapNodeRange 2 0x100020000 0x10000,
                                   EvUnmapNodeRange 1 0x100010000 0x10000] \<rparr>
   \<and> (\<exists>s2. i915_gem_object_release_mmap 3 mapped_state = Inr s2
          \<and> trace s2 = [EvRpmGet,
                         EvUnmapNodeRange 0 0x100000000 0x8000,
                         EvUnmapNodeRange 0 0x100008000 0x8000,
                         EvWmb, EvRpmPut,
                         EvUnmapNodeRange 2 0x100020000 0x10000,
                         EvUnmapNodeRange 1 0x100010000 0x10000])"
proof -
  have ns: "\<not> is_segment (objs mapped_state 3)" by (simp add: fixture6_defs)
  have ok: "userfault_ok 3 mapped_state"
    by (simp add: userfault_ok_def ggtt_vmas_def fixture6_defs)
  have st: "set_tree (mmo_offsets (objs mapped_state 3)) = {0, 1, 2}"
    by (auto simp: fixture6_defs)
  have t0: "mmap_type (mmos mapped_state 0) = I915_MMAP_TYPE_GTT"
    and t1: "mmap_type (mmos mapped_state 1) = I915_MMAP_TYPE_WC"
    and t2: "mmap_type (mmos mapped_state 2) = I915_MMAP_TYPE_WB"
    by (simp_all add: fixture6_defs)
  have tr: "trace mapped_state = []" by (simp add: fixture6_defs)
  have ev: "(if is_segment (objs mapped_state 3)
             then (case parent (objs mapped_state 3) of
                     None \<Rightarrow> []
                   | Some par \<Rightarrow>
                       map (\<lambda>m. EvUnmapNodeRange m
                                   (drm_vma_node_offset_addr (vma_node (mmos mapped_state m))
                                      + segment_offset (objs mapped_state 3))
                                   (base_size (objs mapped_state 3)))
                           (filter (\<lambda>m. mmap_type (mmos mapped_state m) \<noteq> I915_MMAP_TYPE_GTT)
                                   (postorder (mmo_offsets (objs mapped_state par)))))
             else map (\<lambda>m. EvUnmapNodeRange m
                              (drm_vma_node_offset_addr (vma_node (mmos mapped_state m)) + 0)
                              (base_size (objs mapped_state 3)))
                      (filter (\<lambda>m. mmap_type (mmos mapped_state m) \<noteq> I915_MMAP_TYPE_GTT)
                              (postorder (mmo_offsets (objs mapped_state 3)))))
            = [EvUnmapNodeRange 2 0x100020000 0x10000, EvUnmapNodeRange 1 0x100010000 0x10000]"
    by (simp add: fixture6_defs drm_vma_node_offset_addr_def drm_vma_node_start_def
          PAGE_SHIFT_def)
  note T = C9_release_mmap_offset_skips_gtt [where s=mapped_state and obj=3, unfolded ev tr]
  have a: "i915_gem_object_release_mmap_offset 3 mapped_state
       = mapped_state \<lparr> trace := [EvUnmapNodeRange 2 0x100020000 0x10000,
                                   EvUnmapNodeRange 1 0x100010000 0x10000] \<rparr>"
    using T by simp
  from T ok obtain s2 where r: "i915_gem_object_release_mmap 3 mapped_state = Inr s2"
    by blast
  from T r obtain s1 where g: "i915_gem_object_release_mmap_gtt 3 mapped_state = Inr s1"
    and e: "s2 = s1 \<lparr> trace := trace s1 @ [EvUnmapNodeRange 2 0x100020000 0x10000,
                                             EvUnmapNodeRange 1 0x100010000 0x10000] \<rparr>"
    by blast
  from mapped_state_release_eval g
  have t1': "trace s1 = [EvRpmGet,
                     EvUnmapNodeRange 0 0x100000000 0x8000,
                     EvUnmapNodeRange 0 0x100008000 0x8000,
                     EvWmb, EvRpmPut]"
    by auto
  have b: "trace s2 = [EvRpmGet,
                         EvUnmapNodeRange 0 0x100000000 0x8000,
                         EvUnmapNodeRange 0 0x100008000 0x8000,
                         EvWmb, EvRpmPut,
                         EvUnmapNodeRange 2 0x100020000 0x10000,
                         EvUnmapNodeRange 1 0x100010000 0x10000]"
    unfolding e by (simp add: t1')
  from ns ok st t0 t1 t2 a r b show ?thesis by blast
qed

end
